theory Spec2Isabelle
  imports Main
begin

section \<open>Records: JSON-decoded values and Python equality\<close>

text \<open>
  A record of the vault listing is what \<^verbatim>\<open>json.loads\<close> returns: a dict whose values
  are strings, integers, booleans, \<^verbatim>\<open>None\<close>, lists and dicts. A dict is an association
  list in insertion order (the order \<^verbatim>\<open>.values()\<close> iterates in). JSON numbers with a
  fraction (Python floats) are outside this model. Strings are lists of 8-bit characters,
  so the model speaks about ASCII text.
\<close>

datatype jvalue =
    JNull
  | JBool bool
  | JInt int
  | JStr string
  | JList "jvalue list"
  | JDict "(string \<times> jvalue) list"

text \<open>
  Python's \<^verbatim>\<open>==\<close> on such values, which \<^verbatim>\<open>obj in self._objects\<close> uses:
  \<^verbatim>\<open>bool\<close> is a subclass of \<^verbatim>\<open>int\<close> (\<^verbatim>\<open>True == 1\<close>), lists compare elementwise, dicts
  compare as mappings whatever the order of their keys.
\<close>

fun py_eq :: "jvalue \<Rightarrow> jvalue \<Rightarrow> bool" where
  "py_eq JNull w = (case w of JNull \<Rightarrow> True | _ \<Rightarrow> False)"
| "py_eq (JBool a) w =
     (case w of JBool b \<Rightarrow> a = b | JInt n \<Rightarrow> (if a then 1 else 0) = n | _ \<Rightarrow> False)"
| "py_eq (JInt m) w =
     (case w of JBool b \<Rightarrow> m = (if b then 1 else 0) | JInt n \<Rightarrow> m = n | _ \<Rightarrow> False)"
| "py_eq (JStr s) w = (case w of JStr t \<Rightarrow> s = t | _ \<Rightarrow> False)"
| "py_eq (JList xs) w = (case w of JList ys \<Rightarrow> list_all2 py_eq xs ys | _ \<Rightarrow> False)"
| "py_eq (JDict a) w =
     (case w of
        JDict b \<Rightarrow>
          length a = length b \<and>
          (\<forall>(k, v) \<in> set a. case map_of b k of None \<Rightarrow> False | Some u \<Rightarrow> py_eq v u)
      | _ \<Rightarrow> False)"

text \<open>The keys of a Python dict are pairwise distinct, at every level of nesting.\<close>

fun wf_value :: "jvalue \<Rightarrow> bool" where
  "wf_value (JList xs) = (\<forall>x \<in> set xs. wf_value x)"
| "wf_value (JDict a) = (distinct (map fst a) \<and> (\<forall>(k, v) \<in> set a. wf_value v))"
| "wf_value _ = True"

section \<open>Tokens and exceptions\<close>

text \<open>
  The tokens of \<^verbatim>\<open>OpTqlLexer\<close>, each with the value its rule leaves in \<^verbatim>\<open>t.value\<close>:
  \<^verbatim>\<open>t_NUMBER\<close> converts to an integer, \<^verbatim>\<open>t_STRING\<close> strips the quotes, the others keep
  their text.
\<close>

datatype token =
    NUMBER int
  | STRING string
  | NAME string
  | EQUALS
  | AND
  | OR
  | LPAREN
  | RPAREN

text \<open>
  The exceptions that leave a query. \<^verbatim>\<open>ParsingError\<close> carries the token handed to
  \<^verbatim>\<open>p_error\<close> (\<^verbatim>\<open>None\<close> at the end of the input). \<open>NotModelled\<close> is no Python exception:
  it marks the one computation left out, the text that \<^verbatim>\<open>format\<close> gives for a list or a
  dict.
\<close>

datatype exn =
    KeyError
  | TypeError
  | AttributeError
  | ParsingError "token option"
  | NotModelled

section \<open>Strings\<close>

definition letters :: string where
  "letters = ''abcdefghijklmnopqrstuvwxyzABCDEFGHIJKLMNOPQRSTUVWXYZ''"

definition digits :: string where
  "digits = ''0123456789''"

definition newline :: char where
  "newline = CHR 0x0A"

text \<open>\<^verbatim>\<open>str(n)\<close> for an integer.\<close>

fun str_nat :: "nat \<Rightarrow> string" where
  "str_nat n = (if n < 10 then [digits ! n] else str_nat (n div 10) @ [digits ! (n mod 10)])"

definition str_int :: "int \<Rightarrow> string" where
  "str_int i = (if i < 0 then CHR ''-'' # str_nat (nat (- i)) else str_nat (nat i))"

text \<open>\<^verbatim>\<open>s.replace('*', '.*')\<close>.\<close>

fun replace_star :: "string \<Rightarrow> string" where
  "replace_star [] = []"
| "replace_star (c # cs) =
     (if c = CHR ''*'' then CHR ''.'' # CHR ''*'' # replace_star cs else c # replace_star cs)"

text \<open>\<^verbatim>\<open>tag.split('.')\<close>: never empty; an empty tag gives one empty key.\<close>

fun split_dot :: "string \<Rightarrow> string list" where
  "split_dot [] = [[]]"
| "split_dot (c # cs) =
     (if c = CHR ''.'' then [] # split_dot cs
      else (case split_dot cs of [] \<Rightarrow> [[c]] | w # ws \<Rightarrow> (c # w) # ws))"

text \<open>Lower case of an ASCII letter, for \<^verbatim>\<open>re.IGNORECASE\<close>.\<close>

definition to_lower :: "char \<Rightarrow> char" where
  "to_lower c =
     (case map_of (zip ''ABCDEFGHIJKLMNOPQRSTUVWXYZ'' ''abcdefghijklmnopqrstuvwxyz'') c of
        None \<Rightarrow> c | Some d \<Rightarrow> d)"

section \<open>Patterns\<close>

text \<open>
  \<^verbatim>\<open>re.match\<close> on the patterns that \<^verbatim>\<open>OpFilter\<close> and \<^verbatim>\<open>OpFuzzy\<close> build from a token value:
  \<^verbatim>\<open>^\<close>, then letters, digits, space, \<^verbatim>\<open>-\<close>, \<^verbatim>\<open>:\<close>, \<^verbatim>\<open>/\<close>, which match themselves,
  \<^verbatim>\<open>.\<close>, which matches any character but a newline, \<^verbatim>\<open>.*\<close>, which matches any run of such
  characters, and a final \<^verbatim>\<open>$\<close>, which matches at the end of the target or before its
  last character when that is a newline. The flag is \<^verbatim>\<open>re.IGNORECASE\<close>. A match exists
  iff the backtracking search of \<^verbatim>\<open>re\<close> finds one.
\<close>

definition char_match :: "bool \<Rightarrow> char \<Rightarrow> char \<Rightarrow> bool" where
  "char_match ignorecase p c = (if ignorecase then to_lower p = to_lower c else p = c)"

fun re_match_at :: "bool \<Rightarrow> string \<Rightarrow> string \<Rightarrow> bool" where
  "re_match_at ic [] t = True"
| "re_match_at ic [p] t =
     (if p = CHR ''$'' then t = [] \<or> t = [newline]
      else (case t of [] \<Rightarrow> False
            | c # cs \<Rightarrow> (if p = CHR ''.'' then c \<noteq> newline else char_match ic p c)))"
| "re_match_at ic (p # q # ps) t =
     (if p = CHR ''.'' \<and> q = CHR ''*''
      then re_match_at ic ps t \<or>
           (case t of [] \<Rightarrow> False
            | c # cs \<Rightarrow> c \<noteq> newline \<and> re_match_at ic (p # q # ps) cs)
      else (case t of [] \<Rightarrow> False
            | c # cs \<Rightarrow>
                (if p = CHR ''.'' then c \<noteq> newline else char_match ic p c) \<and>
                re_match_at ic (q # ps) cs))"

definition re_match :: "bool \<Rightarrow> string \<Rightarrow> string \<Rightarrow> bool" where
  "re_match ic pattern t =
     (case pattern of
        [] \<Rightarrow> True
      | p # ps \<Rightarrow> if p = CHR ''^'' then re_match_at ic ps t else re_match_at ic pattern t)"

section \<open>The AST\<close>

text \<open>
  A token value reaching \<^verbatim>\<open>OpFilter\<close> or \<^verbatim>\<open>OpFuzzy\<close> is a string or an integer. Both
  constructors keep the anchored pattern in \<^verbatim>\<open>self.value\<close>.
\<close>

datatype literal = LitStr string | LitInt int

fun py_str :: "literal \<Rightarrow> string" where
  "py_str (LitStr s) = s"
| "py_str (LitInt i) = str_int i"

datatype expression =
    OpFilter string string
  | OpFuzzy string
  | OpUnionOperator expression expression
  | OpIntersectionOperator expression expression

datatype OpTqlAst = OpTqlAst (expression: "expression option")

definition anchored :: "literal \<Rightarrow> string" where
  "anchored v = CHR ''^'' # replace_star (py_str v) @ ''$''"

definition OpFilter_init :: "string \<Rightarrow> literal \<Rightarrow> expression" where
  "OpFilter_init name v = OpFilter name (anchored v)"

definition OpFuzzy_init :: "literal \<Rightarrow> expression" where
  "OpFuzzy_init v = OpFuzzy (anchored v)"

text \<open>
  \<^verbatim>\<open>OpFilter.match\<close>: \<^verbatim>\<open>self.value\<close> is a string, so \<^verbatim>\<open>self.value is None\<close> is false;
  \<^verbatim>\<open>re.match\<close> raises \<^verbatim>\<open>TypeError\<close> on a target that is not a string.
\<close>

fun OpFilter_match :: "string \<Rightarrow> jvalue \<Rightarrow> exn + bool" where
  "OpFilter_match pattern JNull = Inr False"
| "OpFilter_match pattern (JStr s) = Inr (re_match False pattern s)"
| "OpFilter_match pattern v = Inl TypeError"

text \<open>\<^verbatim>\<open>'{}'.format(value)\<close>, and \<^verbatim>\<open>OpFuzzy.match\<close>.\<close>

fun py_format :: "jvalue \<Rightarrow> string option" where
  "py_format JNull = Some ''None''"
| "py_format (JBool b) = Some (if b then ''True'' else ''False'')"
| "py_format (JInt i) = Some (str_int i)"
| "py_format (JStr s) = Some s"
| "py_format v = None"

fun OpFuzzy_match :: "string \<Rightarrow> jvalue \<Rightarrow> exn + bool" where
  "OpFuzzy_match pattern JNull = Inr False"
| "OpFuzzy_match pattern v =
     (case py_format v of
        None \<Rightarrow> Inl NotModelled
      | Some s \<Rightarrow> Inr (re_match True pattern s))"

section \<open>The store of OpResponse objects\<close>

text \<open>
  An \<^verbatim>\<open>OpResponse\<close> object is an address into a store; the store holds the object's
  \<^verbatim>\<open>_objects\<close> list. Creating an object allocates the next address. The only statement
  of \<^verbatim>\<open>opdb.py\<close> that writes to a store cell is the \<^verbatim>\<open>append\<close> in \<^verbatim>\<open>add\<close>.
\<close>

type_synonym heap = "jvalue list list"

text \<open>
  \<^verbatim>\<open>OpResponse.__init__\<close>: \<^verbatim>\<open>copy_from\<close> is \<^verbatim>\<open>None\<close> or the address of the list (or of the
  \<^verbatim>\<open>OpResponse\<close>) that the comprehension iterates over.
\<close>

definition OpResponse_init :: "heap \<Rightarrow> nat option \<Rightarrow> nat \<times> heap" where
  "OpResponse_init h copy_from =
     (length h, h @ [case copy_from of None \<Rightarrow> [] | Some src \<Rightarrow> h ! src])"

definition OpResponse_contains :: "heap \<Rightarrow> nat \<Rightarrow> jvalue \<Rightarrow> bool" where
  "OpResponse_contains h self obj = list_ex (\<lambda>y. py_eq y obj) (h ! self)"

definition OpResponse_add :: "heap \<Rightarrow> nat \<Rightarrow> jvalue \<Rightarrow> heap" where
  "OpResponse_add h self obj =
     (if \<not> list_ex (\<lambda>y. py_eq y obj) (h ! self) then h[self := h ! self @ [obj]] else h)"

definition OpResponse_copy :: "heap \<Rightarrow> nat \<Rightarrow> nat \<times> heap" where
  "OpResponse_copy h self = OpResponse_init h (Some self)"

text \<open>
  \<^verbatim>\<open>__and__\<close>: the loop over \<^verbatim>\<open>self\<close>, then the method. Here and below a \<^verbatim>\<open>for\<close> loop
  runs over the list that the iterated collection holds when the loop starts, and threads
  the store through its body: the body reads \<^verbatim>\<open>other\<close> and \<^verbatim>\<open>response\<close> in the current
  store, and writes to \<^verbatim>\<open>response\<close>, an object created by the method itself and so
  distinct from the collection being iterated.
\<close>

text \<open>
  \<^verbatim>\<open>obj.copy()\<close>: a dict and a list have the method, which returns a new object with the
  same contents; a string, a number, a boolean and \<^verbatim>\<open>None\<close> have no such attribute.
\<close>

fun dict_copy :: "jvalue \<Rightarrow> exn + jvalue" where
  "dict_copy (JDict a) = Inr (JDict a)"
| "dict_copy (JList xs) = Inr (JList xs)"
| "dict_copy obj = Inl AttributeError"

fun and_loop :: "nat \<Rightarrow> nat \<Rightarrow> jvalue list \<Rightarrow> heap \<Rightarrow> exn + heap" where
  "and_loop response other [] h = Inr h"
| "and_loop response other (obj # rest) h =
     (if OpResponse_contains h other obj
      then (case dict_copy obj of
              Inl e \<Rightarrow> Inl e
            | Inr obj' \<Rightarrow> and_loop response other rest (OpResponse_add h response obj'))
      else and_loop response other rest h)"

definition OpResponse_and :: "heap \<Rightarrow> nat \<Rightarrow> nat \<Rightarrow> exn + nat \<times> heap" where
  "OpResponse_and h self other =
     (case OpResponse_init h None of
        (response, h1) \<Rightarrow>
          (case and_loop response other (h1 ! self) h1 of
             Inl e \<Rightarrow> Inl e
           | Inr h2 \<Rightarrow> Inr (response, h2)))"

text \<open>\<^verbatim>\<open>__or__\<close>: the loop over \<^verbatim>\<open>other\<close>, then the loop over \<^verbatim>\<open>self\<close>.\<close>

fun or_loop_other :: "nat \<Rightarrow> nat \<Rightarrow> jvalue list \<Rightarrow> heap \<Rightarrow> exn + heap" where
  "or_loop_other response self [] h = Inr h"
| "or_loop_other response self (obj # rest) h =
     (case (if OpResponse_contains h self obj then dict_copy obj else Inr obj) of
        Inl e \<Rightarrow> Inl e
      | Inr obj' \<Rightarrow> or_loop_other response self rest (OpResponse_add h response obj'))"

fun or_loop_self :: "nat \<Rightarrow> jvalue list \<Rightarrow> heap \<Rightarrow> heap" where
  "or_loop_self response [] h = h"
| "or_loop_self response (obj # rest) h =
     or_loop_self response rest
       (if \<not> OpResponse_contains h response obj then OpResponse_add h response obj else h)"

definition OpResponse_or :: "heap \<Rightarrow> nat \<Rightarrow> nat \<Rightarrow> exn + nat \<times> heap" where
  "OpResponse_or h self other =
     (case OpResponse_init h None of
        (response, h1) \<Rightarrow>
          (case or_loop_other response self (h1 ! other) h1 of
             Inl e \<Rightarrow> Inl e
           | Inr h2 \<Rightarrow> Inr (response, or_loop_self response (h2 ! self) h2)))"

text \<open>
  \<^verbatim>\<open>d[key]\<close> with a string key: a dict returns the value or raises \<^verbatim>\<open>KeyError\<close>; a
  string, a list, a number, a boolean and \<^verbatim>\<open>None\<close> raise \<^verbatim>\<open>TypeError\<close>.
\<close>

fun py_getitem :: "jvalue \<Rightarrow> string \<Rightarrow> exn + jvalue" where
  "py_getitem (JDict a) key = (case map_of a key of None \<Rightarrow> Inl KeyError | Some v \<Rightarrow> Inr v)"
| "py_getitem d key = Inl TypeError"

fun find_value_by_key_loop :: "jvalue \<Rightarrow> string list \<Rightarrow> exn + jvalue" where
  "find_value_by_key_loop d [] = Inr d"
| "find_value_by_key_loop d (key # keys) =
     (case py_getitem d key of Inl e \<Rightarrow> Inl e | Inr v \<Rightarrow> find_value_by_key_loop v keys)"

definition OpResponse_find_value_by_key :: "jvalue \<Rightarrow> string \<Rightarrow> exn + jvalue" where
  "OpResponse_find_value_by_key obj tag = find_value_by_key_loop obj (split_dot tag)"

text \<open>
  \<^verbatim>\<open>_find_value\<close>: \<^verbatim>\<open>bool\<close> is an \<^verbatim>\<open>int\<close> for \<^verbatim>\<open>isinstance\<close>; \<^verbatim>\<open>None\<close> is skipped.
\<close>

fun OpResponse_find_value :: "(jvalue \<Rightarrow> exn + bool) \<Rightarrow> jvalue list \<Rightarrow> exn + bool" where
  "OpResponse_find_value cmp_func [] = Inr False"
| "OpResponse_find_value cmp_func (JNull # rest) = OpResponse_find_value cmp_func rest"
| "OpResponse_find_value cmp_func (JDict a # rest) =
     (case OpResponse_find_value cmp_func (map snd a) of
        Inl e \<Rightarrow> Inl e
      | Inr b \<Rightarrow> if b then Inr True else OpResponse_find_value cmp_func rest)"
| "OpResponse_find_value cmp_func (JList xs # rest) =
     (case OpResponse_find_value cmp_func xs of
        Inl e \<Rightarrow> Inl e
      | Inr b \<Rightarrow> if b then Inr True else OpResponse_find_value cmp_func rest)"
| "OpResponse_find_value cmp_func (val # rest) =
     (case cmp_func val of
        Inl e \<Rightarrow> Inl e
      | Inr b \<Rightarrow> if b then Inr True else OpResponse_find_value cmp_func rest)"

text \<open>\<^verbatim>\<open>filter\<close>: only \<^verbatim>\<open>KeyError\<close> from the walk is caught.\<close>

fun filter_loop ::
  "nat \<Rightarrow> string \<Rightarrow> (jvalue \<Rightarrow> exn + bool) \<Rightarrow> jvalue list \<Rightarrow> heap \<Rightarrow> exn + heap" where
  "filter_loop matching tag cmp_func [] h = Inr h"
| "filter_loop matching tag cmp_func (obj # rest) h =
     (case OpResponse_find_value_by_key obj tag of
        Inl e \<Rightarrow> if e = KeyError then filter_loop matching tag cmp_func rest h else Inl e
      | Inr tag_value \<Rightarrow>
          (case cmp_func tag_value of
             Inl e \<Rightarrow> Inl e
           | Inr b \<Rightarrow>
               filter_loop matching tag cmp_func rest
                 (if b then OpResponse_add h matching obj else h)))"

definition OpResponse_filter ::
  "heap \<Rightarrow> nat \<Rightarrow> string \<Rightarrow> (jvalue \<Rightarrow> exn + bool) \<Rightarrow> exn + nat \<times> heap" where
  "OpResponse_filter h self tag cmp_func =
     (case OpResponse_init h None of
        (matching, h1) \<Rightarrow>
          (case filter_loop matching tag cmp_func (h1 ! self) h1 of
             Inl e \<Rightarrow> Inl e
           | Inr h2 \<Rightarrow> Inr (matching, h2)))"

text \<open>\<^verbatim>\<open>fuzzy\<close>: \<^verbatim>\<open>obj.values()\<close> exists on a dict only.\<close>

fun py_values :: "jvalue \<Rightarrow> exn + jvalue list" where
  "py_values (JDict a) = Inr (map snd a)"
| "py_values v = Inl AttributeError"

fun fuzzy_loop :: "nat \<Rightarrow> (jvalue \<Rightarrow> exn + bool) \<Rightarrow> jvalue list \<Rightarrow> heap \<Rightarrow> exn + heap" where
  "fuzzy_loop matching cmp_func [] h = Inr h"
| "fuzzy_loop matching cmp_func (obj # rest) h =
     (case py_values obj of
        Inl e \<Rightarrow> Inl e
      | Inr vals \<Rightarrow>
          (case OpResponse_find_value cmp_func vals of
             Inl e \<Rightarrow> Inl e
           | Inr b \<Rightarrow>
               fuzzy_loop matching cmp_func rest
                 (if b then OpResponse_add h matching obj else h)))"

definition OpResponse_fuzzy ::
  "heap \<Rightarrow> nat \<Rightarrow> (jvalue \<Rightarrow> exn + bool) \<Rightarrow> exn + nat \<times> heap" where
  "OpResponse_fuzzy h self cmp_func =
     (case OpResponse_init h None of
        (matching, h1) \<Rightarrow>
          (case fuzzy_loop matching cmp_func (h1 ! self) h1 of
             Inl e \<Rightarrow> Inl e
           | Inr h2 \<Rightarrow> Inr (matching, h2)))"

section \<open>The lexer\<close>

text \<open>
  \<^verbatim>\<open>ply.lex\<close> on the rules of \<^verbatim>\<open>OpTqlLexer\<close>. At each position a character of
  \<^verbatim>\<open>t_ignore\<close> is skipped; otherwise the rules are tried, and since no two of them can
  start with the same character their order is immaterial; a character that starts no
  rule goes to \<^verbatim>\<open>t_error\<close>, which prints it and skips it. \<^verbatim>\<open>t_newline\<close> returns no token.
  Every rule is greedy.
\<close>

definition is_digit :: "char \<Rightarrow> bool" where
  "is_digit c = (c \<in> set digits)"

definition is_name_char :: "char \<Rightarrow> bool" where
  "is_name_char c = (c \<in> set letters \<or> c = CHR ''.'')"

definition is_string_char :: "char \<Rightarrow> bool" where
  "is_string_char c = (c \<in> set letters \<or> c \<in> set digits \<or> c \<in> set ''- *:/.'')"

text \<open>\<^verbatim>\<open>int(t.value)\<close> on a run of digits.\<close>

definition digit_value :: "char \<Rightarrow> int" where
  "digit_value c = (case map_of (zip digits [0, 1, 2, 3, 4, 5, 6, 7, 8, 9]) c of
                      None \<Rightarrow> 0 | Some d \<Rightarrow> d)"

definition int_of_digits :: "string \<Rightarrow> int" where
  "int_of_digits ds = foldl (\<lambda>n d. 10 * n + digit_value d) 0 ds"

function tokenize :: "string \<Rightarrow> token list" where
  "tokenize [] = []"
| "tokenize (c # cs) =
     (if c = CHR '' '' \<or> c = CHR 0x09 then tokenize cs
      else if is_digit c then
        NUMBER (int_of_digits (c # takeWhile is_digit cs)) # tokenize (dropWhile is_digit cs)
      else if c = CHR 0x22 then
        (case dropWhile is_string_char cs of
           [] \<Rightarrow> tokenize cs
         | d # ds \<Rightarrow>
             if d = CHR 0x22 \<and> takeWhile is_string_char cs \<noteq> []
             then STRING (takeWhile is_string_char cs) # tokenize ds
             else tokenize cs)
      else if c = newline then tokenize (dropWhile (\<lambda>d. d = newline) cs)
      else if is_name_char c then
        NAME (c # takeWhile is_name_char cs) # tokenize (dropWhile is_name_char cs)
      else if c = CHR ''&'' then AND # tokenize cs
      else if c = CHR ''|'' then OR # tokenize cs
      else if c = CHR ''='' then EQUALS # tokenize cs
      else if c = CHR ''('' then LPAREN # tokenize cs
      else if c = CHR '')'' then RPAREN # tokenize cs
      else tokenize cs)"
  by pat_completeness auto
termination
proof (relation "measure length")
  fix c :: char and cs ds :: string and d :: char
  assume "dropWhile is_string_char cs = d # ds"
  then have "length (d # ds) \<le> length cs"
    using length_dropWhile_le [of is_string_char cs] by simp
  then show "(ds, c # cs) \<in> measure length" by simp
qed (auto simp: length_dropWhile_le less_Suc_eq_le)

section \<open>The parser\<close>

text \<open>
  \<^verbatim>\<open>ply.yacc\<close> builds an LALR(1) parser from the grammar in the docstrings of
  \<^verbatim>\<open>OpTqlParser\<close> and its \<^verbatim>\<open>precedence\<close> table. The grammar (start symbol \<^verbatim>\<open>input\<close>):
  \<^verbatim>\<open>input : expr\<close>;
  \<^verbatim>\<open>expr : STRING | NAME | NUMBER\<close>;
  \<^verbatim>\<open>expr : NAME EQUALS STRING | NAME EQUALS NUMBER\<close>;
  \<^verbatim>\<open>expr : LPAREN expr RPAREN\<close>;
  \<^verbatim>\<open>expr : expr OR expr | expr AND expr\<close>.
  The parser is written here as the shift-reduce machine those tables drive. Its stack
  holds grammar symbols with their values, the top first; the state of the LALR automaton
  is determined by the top symbol and the one below it.
\<close>

datatype assoc = Assoc_left | Assoc_right | Assoc_nonassoc

definition token_type :: "token \<Rightarrow> string" where
  "token_type t =
     (case t of NUMBER i \<Rightarrow> ''NUMBER'' | STRING s \<Rightarrow> ''STRING'' | NAME n \<Rightarrow> ''NAME''
      | EQUALS \<Rightarrow> ''EQUALS'' | AND \<Rightarrow> ''AND'' | OR \<Rightarrow> ''OR''
      | LPAREN \<Rightarrow> ''LPAREN'' | RPAREN \<Rightarrow> ''RPAREN'')"

text \<open>\<^verbatim>\<open>precedence = (('left', 'OR', 'AND'),)\<close>: one level, holding both operators.\<close>

definition precedence :: "(assoc \<times> string list) list" where
  "precedence = [(Assoc_left, [''OR'', ''AND''])]"

text \<open>
  The level of a terminal is the position of its line in the table, counted from one; a
  terminal that the table does not list has \<^verbatim>\<open>('right', 0)\<close>.
\<close>

fun prec_lookup :: "(assoc \<times> string list) list \<Rightarrow> nat \<Rightarrow> string \<Rightarrow> assoc \<times> nat" where
  "prec_lookup [] level name = (Assoc_right, 0)"
| "prec_lookup ((a, names) # rest) level name =
     (if name \<in> set names then (a, level) else prec_lookup rest (Suc level) name)"

definition prec_of :: "token \<Rightarrow> assoc \<times> nat" where
  "prec_of t = prec_lookup precedence 1 (token_type t)"

text \<open>
  A shift/reduce conflict between a rule, which has the precedence of its last terminal,
  and the lookahead token: reduce when the token's level is lower, or equal with a
  left-associative rule; no action when equal and non-associative; shift otherwise.
\<close>

datatype resolution = Do_shift | Do_reduce | No_action

definition resolve :: "token \<Rightarrow> token \<Rightarrow> resolution" where
  "resolve rule_terminal lookahead =
     (case (prec_of rule_terminal, prec_of lookahead) of
        ((rprec, rlevel), (sprec, slevel)) \<Rightarrow>
          if slevel < rlevel \<or> (slevel = rlevel \<and> rprec = Assoc_left) then Do_reduce
          else if slevel = rlevel \<and> rprec = Assoc_nonassoc then No_action
          else Do_shift)"

text \<open>The actions of the rules. \<^verbatim>\<open>p\<close> is given by the values of the right-hand side.\<close>

definition p_input :: "expression list \<Rightarrow> OpTqlAst" where
  "p_input p = (if length p + 1 = 1 then OpTqlAst None else OpTqlAst (Some (p ! 0)))"

definition p_expr_fuzzy :: "literal \<Rightarrow> expression" where
  "p_expr_fuzzy p1 = OpFuzzy_init p1"

definition p_expr_pair :: "string \<Rightarrow> literal \<Rightarrow> expression" where
  "p_expr_pair p1 p3 = OpFilter_init p1 p3"

definition p_expr_par :: "expression \<Rightarrow> expression" where
  "p_expr_par p2 = p2"

text \<open>\<^verbatim>\<open>p[2]\<close> is \<^verbatim>\<open>'|'\<close> exactly for the token \<^verbatim>\<open>OR\<close>, \<^verbatim>\<open>'&'\<close> exactly for \<^verbatim>\<open>AND\<close>.\<close>

definition p_expr_binary :: "expression \<Rightarrow> token \<Rightarrow> expression \<Rightarrow> expression" where
  "p_expr_binary p1 p2 p3 =
     (if p2 = OR then OpUnionOperator p1 p3 else OpIntersectionOperator p1 p3)"

datatype symbol = Tok token | Expr expression

datatype outcome =
    Continue "symbol list" "token list"
  | Accept OpTqlAst
  | Fail "token option"

text \<open>Shifting the lookahead, or failing on it (\<^verbatim>\<open>p_error\<close> gets \<^verbatim>\<open>None\<close> at the end).\<close>

definition shift_if :: "(token \<Rightarrow> bool) \<Rightarrow> symbol list \<Rightarrow> token list \<Rightarrow> outcome" where
  "shift_if ok stack inp =
     (case inp of
        [] \<Rightarrow> Fail None
      | a # rest \<Rightarrow> if ok a then Continue (Tok a # stack) rest else Fail (Some a))"

definition starts_expr :: "token \<Rightarrow> bool" where
  "starts_expr a =
     (case a of STRING s \<Rightarrow> True | NAME n \<Rightarrow> True | NUMBER i \<Rightarrow> True | LPAREN \<Rightarrow> True
      | _ \<Rightarrow> False)"

definition is_operator :: "token \<Rightarrow> bool" where
  "is_operator a = (a = OR \<or> a = AND)"

text \<open>
  A literal on top: after \<^verbatim>\<open>NAME EQUALS\<close> it completes a pair, otherwise it is a bare
  term. Both states hold one reduction and no shift. The machine reduces at once; on a
  lookahead that cannot follow an expression the tables report the error before the
  reduction, the machine in the step after it, on the same token.
\<close>

definition reduce_literal :: "literal \<Rightarrow> symbol list \<Rightarrow> token list \<Rightarrow> outcome" where
  "reduce_literal v below inp =
     (case below of
        Tok EQUALS # Tok (NAME n) # st \<Rightarrow> Continue (Expr (p_expr_pair n v) # st) inp
      | _ \<Rightarrow> Continue (Expr (p_expr_fuzzy v) # below) inp)"

text \<open>
  A name on top: \<^verbatim>\<open>EQUALS\<close> is shifted; the name is reduced to a bare term on the
  lookaheads that can follow an expression.
\<close>

definition after_name :: "string \<Rightarrow> symbol list \<Rightarrow> token list \<Rightarrow> outcome" where
  "after_name n below inp =
     (case inp of
        [] \<Rightarrow> Continue (Expr (p_expr_fuzzy (LitStr n)) # below) inp
      | a # rest \<Rightarrow>
          if a = EQUALS then Continue (Tok a # Tok (NAME n) # below) rest
          else if is_operator a \<or> a = RPAREN
          then Continue (Expr (p_expr_fuzzy (LitStr n)) # below) inp
          else Fail (Some a))"

text \<open>
  An expression on top. Above an operator the rule \<^verbatim>\<open>expr : expr OR expr\<close> (or the one
  of \<^verbatim>\<open>AND\<close>) is complete: with an operator as lookahead the conflict is settled by
  \<open>resolve\<close>. Above \<^verbatim>\<open>LPAREN\<close> the parenthesis or an operator is shifted. At the bottom
  the end of the input accepts. A stack of any other shape is reached by no run that
  starts from the empty stack.
\<close>

definition after_expr :: "expression \<Rightarrow> symbol list \<Rightarrow> token list \<Rightarrow> outcome" where
  "after_expr e below inp =
     (case below of
        [] \<Rightarrow>
          (case inp of
             [] \<Rightarrow> Accept (p_input [e])
           | a # rest \<Rightarrow> shift_if is_operator [Expr e] inp)
      | Tok LPAREN # st \<Rightarrow> shift_if (\<lambda>a. is_operator a \<or> a = RPAREN) (Expr e # below) inp
      | Tok op # Expr l # st \<Rightarrow>
          (case inp of
             [] \<Rightarrow> Continue (Expr (p_expr_binary l op e) # st) inp
           | a # rest \<Rightarrow>
               if a = RPAREN then Continue (Expr (p_expr_binary l op e) # st) inp
               else if is_operator a then
                 (case resolve op a of
                    Do_reduce \<Rightarrow> Continue (Expr (p_expr_binary l op e) # st) inp
                  | Do_shift \<Rightarrow> Continue (Tok a # Expr e # below) rest
                  | No_action \<Rightarrow> Fail (Some a))
               else Fail (Some a))
      | _ \<Rightarrow> Fail (case inp of [] \<Rightarrow> None | a # rest \<Rightarrow> Some a))"

definition reduce_par :: "symbol list \<Rightarrow> token list \<Rightarrow> outcome" where
  "reduce_par below inp =
     (case below of
        Expr e # Tok LPAREN # st \<Rightarrow> Continue (Expr (p_expr_par e) # st) inp
      | _ \<Rightarrow> Fail (case inp of [] \<Rightarrow> None | a # rest \<Rightarrow> Some a))"

definition yacc_step :: "symbol list \<Rightarrow> token list \<Rightarrow> outcome" where
  "yacc_step stack inp =
     (case stack of
        [] \<Rightarrow> shift_if starts_expr stack inp
      | Expr e # below \<Rightarrow> after_expr e below inp
      | Tok t # below \<Rightarrow>
          (case t of
             STRING s \<Rightarrow> reduce_literal (LitStr s) below inp
           | NUMBER i \<Rightarrow> reduce_literal (LitInt i) below inp
           | NAME n \<Rightarrow> after_name n below inp
           | EQUALS \<Rightarrow>
               shift_if (\<lambda>a. case a of STRING s \<Rightarrow> True | NUMBER i \<Rightarrow> True | _ \<Rightarrow> False)
                 stack inp
           | RPAREN \<Rightarrow> reduce_par below inp
           | _ \<Rightarrow> shift_if starts_expr stack inp))"

text \<open>Every step shortens the input or turns symbols of the stack into an expression.\<close>

fun weight :: "symbol \<Rightarrow> nat" where
  "weight (Tok t) = 2"
| "weight (Expr e) = 1"

definition yacc_measure :: "symbol list \<times> token list \<Rightarrow> nat" where
  "yacc_measure = (\<lambda>(stack, inp). 3 * length inp + sum_list (map weight stack))"

function yacc_run :: "symbol list \<Rightarrow> token list \<Rightarrow> exn + OpTqlAst" where
  "yacc_run stack inp =
     (case yacc_step stack inp of
        Continue stack' inp' \<Rightarrow> yacc_run stack' inp'
      | Accept ast \<Rightarrow> Inr ast
      | Fail t \<Rightarrow> Inl (ParsingError t))"
  by pat_completeness auto
termination
proof (relation "measure yacc_measure")
  fix stack stack' :: "symbol list" and inp inp' :: "token list"
  assume step: "yacc_step stack inp = Continue stack' inp'"
  have shift: "yacc_measure (st', i') < yacc_measure (st, i)"
    if "shift_if ok st i = Continue st' i'" for ok st i st' i'
    using that by (auto simp: shift_if_def yacc_measure_def split: list.splits if_splits)
  have lit: "yacc_measure (st', i') < yacc_measure (Tok t # st, i)"
    if "reduce_literal v st i = Continue st' i'" for v t st i st' i'
    using that
    by (auto simp: reduce_literal_def yacc_measure_def
        split: list.splits symbol.splits token.splits)
  have name: "yacc_measure (st', i') < yacc_measure (Tok t # st, i)"
    if "after_name n st i = Continue st' i'" for n t st i st' i'
    using that by (auto simp: after_name_def yacc_measure_def split: list.splits if_splits)
  have par: "yacc_measure (st', i') < yacc_measure (Tok t # st, i)"
    if "reduce_par st i = Continue st' i'" for t st i st' i'
    using that
    by (auto simp: reduce_par_def yacc_measure_def
        split: list.splits symbol.splits token.splits)
  have expr: "yacc_measure (st', i') < yacc_measure (Expr e # st, i)"
    if "after_expr e st i = Continue st' i'" for e st i st' i'
  proof (cases st)
    case Nil
    with that shift [of is_operator "[Expr e]" i st' i'] show ?thesis
      by (auto simp: after_expr_def split: list.splits)
  next
    case (Cons x below)
    show ?thesis
    proof (cases x)
      case (Expr l)
      with Cons that show ?thesis by (simp add: after_expr_def)
    next
      case (Tok op)
      show ?thesis
      proof (cases "op = LPAREN")
        case True
        with Tok Cons that
          shift [of "\<lambda>a. is_operator a \<or> a = RPAREN" "Expr e # st" i st' i']
        show ?thesis by (simp add: after_expr_def)
      next
        case False
        with Tok Cons that show ?thesis
          by (cases op)
            (auto simp: after_expr_def yacc_measure_def
              split: list.splits symbol.splits if_splits resolution.splits)
      qed
    qed
  qed
  show "((stack', inp'), (stack, inp)) \<in> measure yacc_measure"
  proof (cases stack)
    case Nil
    with step shift [of starts_expr stack inp stack' inp'] show ?thesis
      by (simp add: yacc_step_def)
  next
    case (Cons x below)
    show ?thesis
    proof (cases x)
      case (Expr e)
      with Cons step expr [of e below inp stack' inp'] show ?thesis
        by (simp add: yacc_step_def)
    next
      case (Tok t)
      with Cons step shift [of _ stack inp stack' inp'] lit [of _ below inp stack' inp' t]
        name [of _ below inp stack' inp' t] par [of below inp stack' inp' t]
      show ?thesis
        by (cases t) (simp_all add: yacc_step_def)
    qed
  qed
qed simp

text \<open>\<^verbatim>\<open>OpTqlParser(_input).parse()\<close>.\<close>

definition OpTqlParser_parse :: "string \<Rightarrow> exn + OpTqlAst" where
  "OpTqlParser_parse inp = yacc_run [] (tokenize inp)"

section \<open>The evaluator\<close>

text \<open>
  \<^verbatim>\<open>OpDatabase._objects\<close> is the address of the collection the database was built on.
  \<^verbatim>\<open>_evaluate_expression\<close> has a branch for each of the four node classes and no
  \<^verbatim>\<open>else\<close>: on anything else, \<^verbatim>\<open>None\<close> included, it returns \<^verbatim>\<open>None\<close>. The operators
  \<^verbatim>\<open>|\<close> and \<^verbatim>\<open>&\<close> raise \<^verbatim>\<open>TypeError\<close> when their left operand is \<^verbatim>\<open>None\<close>, and the
  methods \<^verbatim>\<open>__or__\<close> and \<^verbatim>\<open>__and__\<close> when their right operand is.
\<close>

fun evaluate_expression ::
  "heap \<Rightarrow> nat \<Rightarrow> expression option \<Rightarrow> exn + nat option \<times> heap" where
  "evaluate_expression h objs None = Inr (None, h)"
| "evaluate_expression h objs (Some (OpFilter name pattern)) =
     (case OpResponse_filter h objs name (OpFilter_match pattern) of
        Inl e \<Rightarrow> Inl e
      | Inr (r, h') \<Rightarrow> Inr (Some r, h'))"
| "evaluate_expression h objs (Some (OpFuzzy pattern)) =
     (case OpResponse_fuzzy h objs (OpFuzzy_match pattern) of
        Inl e \<Rightarrow> Inl e
      | Inr (r, h') \<Rightarrow> Inr (Some r, h'))"
| "evaluate_expression h objs (Some (OpUnionOperator left_expression right_expression)) =
     (case evaluate_expression h objs (Some left_expression) of
        Inl e \<Rightarrow> Inl e
      | Inr (left, h1) \<Rightarrow>
          (case evaluate_expression h1 objs (Some right_expression) of
             Inl e \<Rightarrow> Inl e
           | Inr (right, h2) \<Rightarrow>
               (case (left, right) of
                  (Some l, Some r) \<Rightarrow>
                    (case OpResponse_or h2 l r of
                       Inl e \<Rightarrow> Inl e
                     | Inr (u, h3) \<Rightarrow> Inr (Some u, h3))
                | _ \<Rightarrow> Inl TypeError)))"
| "evaluate_expression h objs (Some (OpIntersectionOperator left_expression right_expression)) =
     (case evaluate_expression h objs (Some left_expression) of
        Inl e \<Rightarrow> Inl e
      | Inr (left, h1) \<Rightarrow>
          (case evaluate_expression h1 objs (Some right_expression) of
             Inl e \<Rightarrow> Inl e
           | Inr (right, h2) \<Rightarrow>
               (case (left, right) of
                  (Some l, Some r) \<Rightarrow>
                    (case OpResponse_and h2 l r of
                       Inl e \<Rightarrow> Inl e
                     | Inr (u, h3) \<Rightarrow> Inr (Some u, h3))
                | _ \<Rightarrow> Inl TypeError)))"

text \<open>\<^verbatim>\<open>_evaluate_ast\<close> copies the database's collection and evaluates on the copy.\<close>

definition OpDatabase_evaluate_ast ::
  "heap \<Rightarrow> nat \<Rightarrow> OpTqlAst \<Rightarrow> exn + nat option \<times> heap" where
  "OpDatabase_evaluate_ast h db_objects ast =
     (case OpResponse_init h (Some db_objects) of
        (objs, h1) \<Rightarrow> evaluate_expression h1 objs (expression ast))"

text \<open>\<^verbatim>\<open>raw_query\<close>, on a query string or on \<^verbatim>\<open>None\<close>.\<close>

definition OpDatabase_raw_query ::
  "heap \<Rightarrow> nat \<Rightarrow> string option \<Rightarrow> exn + nat option \<times> heap" where
  "OpDatabase_raw_query h db_objects tql =
     (case tql of
        Some query \<Rightarrow>
          (case OpTqlParser_parse query of
             Inl e \<Rightarrow> Inl e
           | Inr ast \<Rightarrow> OpDatabase_evaluate_ast h db_objects ast)
      | None \<Rightarrow>
          (case OpResponse_init h (Some db_objects) of
             (evaluated, h1) \<Rightarrow> Inr (Some evaluated, h1)))"

section \<open>Vocabulary of the statements\<close>

text \<open>Membership up to Python equality, and the absence of two equal records in a list.\<close>

definition present :: "jvalue list \<Rightarrow> jvalue \<Rightarrow> bool" where
  "present xs obj = list_ex (\<lambda>y. py_eq y obj) xs"

fun no_duplicates :: "jvalue list \<Rightarrow> bool" where
  "no_duplicates [] = True"
| "no_duplicates (x # xs) = (\<not> list_ex (py_eq x) xs \<and> no_duplicates xs)"

text \<open>Appending every record that is not yet present: what a run of \<^verbatim>\<open>add\<close> calls does.\<close>

fun add_all :: "jvalue list \<Rightarrow> jvalue list \<Rightarrow> jvalue list" where
  "add_all acc [] = acc"
| "add_all acc (x # xs) = add_all (if present acc x then acc else acc @ [x]) xs"

text \<open>
  The records of a list in their order, each one left out when an equal record has been
  kept before it.
\<close>

definition first_occurrences :: "jvalue list \<Rightarrow> jvalue list" where
  "first_occurrences xs = add_all [] xs"

text \<open>A record is a dict.\<close>

fun is_record :: "jvalue \<Rightarrow> bool" where
  "is_record (JDict a) = True"
| "is_record obj = False"


text \<open>
  Queries without parentheses: a first leaf, then operators each followed by a leaf. A
  leaf is a bare term (\<^verbatim>\<open>NAME\<close>, \<^verbatim>\<open>STRING\<close> or \<^verbatim>\<open>NUMBER\<close>) or a pair
  \<^verbatim>\<open>NAME EQUALS STRING\<close>, \<^verbatim>\<open>NAME EQUALS NUMBER\<close>.
\<close>

datatype tql_leaf =
    Bare_name string
  | Bare_string string
  | Bare_number int
  | Pair_string string string
  | Pair_number string int

fun leaf_tokens :: "tql_leaf \<Rightarrow> token list" where
  "leaf_tokens (Bare_name n) = [NAME n]"
| "leaf_tokens (Bare_string s) = [STRING s]"
| "leaf_tokens (Bare_number i) = [NUMBER i]"
| "leaf_tokens (Pair_string n s) = [NAME n, EQUALS, STRING s]"
| "leaf_tokens (Pair_number n i) = [NAME n, EQUALS, NUMBER i]"

fun leaf_ast :: "tql_leaf \<Rightarrow> expression" where
  "leaf_ast (Bare_name n) = OpFuzzy_init (LitStr n)"
| "leaf_ast (Bare_string s) = OpFuzzy_init (LitStr s)"
| "leaf_ast (Bare_number i) = OpFuzzy_init (LitInt i)"
| "leaf_ast (Pair_string n s) = OpFilter_init n (LitStr s)"
| "leaf_ast (Pair_number n i) = OpFilter_init n (LitInt i)"

datatype tql_operator = Op_or | Op_and

fun operator_token :: "tql_operator \<Rightarrow> token" where
  "operator_token Op_or = OR"
| "operator_token Op_and = AND"

fun operator_node :: "tql_operator \<Rightarrow> expression \<Rightarrow> expression \<Rightarrow> expression" where
  "operator_node Op_or l r = OpUnionOperator l r"
| "operator_node Op_and l r = OpIntersectionOperator l r"

fun chain_tokens :: "(tql_operator \<times> tql_leaf) list \<Rightarrow> token list" where
  "chain_tokens [] = []"
| "chain_tokens ((oper, l) # rest) = operator_token oper # leaf_tokens l @ chain_tokens rest"

text \<open>Grouping strictly from the left: each operator takes all that precedes it.\<close>

fun left_grouping :: "expression \<Rightarrow> (tql_operator \<times> tql_leaf) list \<Rightarrow> expression" where
  "left_grouping e [] = e"
| "left_grouping e ((oper, l) # rest) = left_grouping (operator_node oper e (leaf_ast l)) rest"

text \<open>
  Stacks on which the parser awaits the start of an expression, and inputs on which a
  complete expression may be reduced in an unparenthesized query.
\<close>

definition awaits_expr :: "symbol list \<Rightarrow> bool" where
  "awaits_expr stack =
     (case stack of [] \<Rightarrow> True | Tok t # below \<Rightarrow> is_operator t | Expr e # below \<Rightarrow> False)"

definition operator_follows :: "token list \<Rightarrow> bool" where
  "operator_follows inp = (case inp of [] \<Rightarrow> True | a # rest \<Rightarrow> is_operator a)"

text \<open>
  The matching that the specification describes for a literal: each \<^verbatim>\<open>*\<close> stands for any
  sequence of characters, every other character for itself (up to the case of letters
  when the flag is set), and the literal must account for the whole target.
\<close>

fun glob_match :: "bool \<Rightarrow> string \<Rightarrow> string \<Rightarrow> bool" where
  "glob_match ic [] t = (t = [])"
| "glob_match ic (c # cs) t =
     (if c = CHR ''*''
      then glob_match ic cs t \<or> (case t of [] \<Rightarrow> False | d # ds \<Rightarrow> glob_match ic (c # cs) ds)
      else (case t of [] \<Rightarrow> False | d # ds \<Rightarrow> char_match ic c d \<and> glob_match ic cs ds))"

text \<open>Literals of letters, digits, space, \<^verbatim>\<open>-\<close>, \<^verbatim>\<open>:\<close>, \<^verbatim>\<open>/\<close> and \<^verbatim>\<open>*\<close>: no dot.\<close>

definition plain_literal :: "string \<Rightarrow> bool" where
  "plain_literal s = list_all (\<lambda>c. c \<in> set letters \<or> c \<in> set digits \<or> c \<in> set ''- *:/'') s"

text \<open>The records of the scenario in the specification, and a store holding them.\<close>

definition github :: jvalue where
  "github = JDict [(''title'', JStr ''Github'')]"

definition gitlab :: jvalue where
  "gitlab = JDict [(''title'', JStr ''Gitlab'')]"

definition email :: jvalue where
  "email = JDict [(''title'', JStr ''Email'')]"

definition vault :: heap where
  "vault = [[github, gitlab, email], [email, github]]"

text \<open>A store in which a collection holds one record twice.\<close>

definition doubled :: heap where
  "doubled = [[github, github], [github], []]"

section \<open>Python equality is reflexive on well-formed values\<close>

lemma py_eq_refl: "wf_value v \<Longrightarrow> py_eq v v"
proof (induction v)
  case (JList xs)
  then show ?case by (simp add: list_all2_same)
next
  case (JDict a)
  have "case map_of a k of None \<Rightarrow> False | Some u \<Rightarrow> py_eq v u"
    if kv: "(k, v) \<in> set a" for k v
  proof -
    from JDict.prems have "distinct (map fst a)" by simp
    then have "map_of a k = Some v" using kv by (rule map_of_is_SomeI)
    moreover from JDict.prems kv have "wf_value v" by auto
    then have "py_eq v v" using JDict.IH [of "(k, v)" v] kv by simp
    ultimately show ?thesis by simp
  qed
  then show ?case by auto
qed simp_all

section \<open>Runs of add\<close>

lemma present_append: "present (xs @ ys) obj = (present xs obj \<or> present ys obj)"
  by (simp add: present_def list_ex_iff) blast

lemma no_duplicates_append:
  "no_duplicates (xs @ ys) =
     (no_duplicates xs \<and> no_duplicates ys \<and> (\<forall>x \<in> set xs. \<forall>y \<in> set ys. \<not> py_eq x y))"
  by (induction xs) (auto simp: list_ex_iff)

lemma no_duplicates_snoc:
  "no_duplicates (xs @ [x]) = (no_duplicates xs \<and> \<not> present xs x)"
  by (auto simp: no_duplicates_append present_def list_ex_iff)

lemma no_duplicates_filter: "no_duplicates xs \<Longrightarrow> no_duplicates (filter P xs)"
  by (induction xs) (auto simp: list_ex_iff)

lemma no_duplicates_add_all: "no_duplicates acc \<Longrightarrow> no_duplicates (add_all acc xs)"
  by (induction xs arbitrary: acc) (auto simp: no_duplicates_snoc)

lemma add_all_fresh: "no_duplicates (acc @ xs) \<Longrightarrow> add_all acc xs = acc @ xs"
proof (induction xs arbitrary: acc)
  case Nil
  then show ?case by simp
next
  case (Cons x xs)
  from Cons.prems have nd: "no_duplicates ((acc @ [x]) @ xs)" by simp
  then have "no_duplicates (acc @ [x])"
    unfolding no_duplicates_append [of "acc @ [x]" xs] by blast
  then have "\<not> present acc x" by (simp add: no_duplicates_snoc)
  with Cons.IH [OF nd] show ?case by simp
qed

lemma add_all_append: "add_all acc (xs @ ys) = add_all (add_all acc xs) ys"
  by (induction xs arbitrary: acc) auto

lemma add_all_absorbed: "\<forall>x \<in> set xs. present acc x \<Longrightarrow> add_all acc xs = acc"
  by (induction xs arbitrary: acc) auto

lemma add_all_skip:
  "no_duplicates xs \<Longrightarrow> add_all acc xs = acc @ filter (\<lambda>x. \<not> present acc x) xs"
proof (induction xs arbitrary: acc)
  case Nil
  then show ?case by simp
next
  case (Cons x xs)
  from Cons.prems have nd: "no_duplicates xs" and fresh: "\<forall>y \<in> set xs. \<not> py_eq x y"
    by (auto simp: list_ex_iff)
  show ?case
  proof (cases "present acc x")
    case True
    with Cons.IH [OF nd] show ?thesis by simp
  next
    case False
    have "filter (\<lambda>y. \<not> present (acc @ [x]) y) xs = filter (\<lambda>y. \<not> present acc y) xs"
      using fresh by (intro filter_cong) (auto simp: present_append present_def)
    with False Cons.IH [OF nd, of "acc @ [x]"] show ?thesis by simp
  qed
qed

section \<open>The loops, cell by cell\<close>

lemma add_cell:
  "response < length h \<Longrightarrow>
   OpResponse_add h response obj = h[response := add_all (h ! response) [obj]]"
  by (simp add: OpResponse_add_def present_def list_update_same_conv [THEN iffD2])

lemma dict_copy_same: "dict_copy obj = Inr obj' \<Longrightarrow> obj' = obj"
  by (cases obj) auto

lemma dict_copy_record: "is_record obj \<Longrightarrow> dict_copy obj = Inr obj"
  by (cases obj) auto

lemma and_loop_cell:
  "response < length h \<Longrightarrow> other \<noteq> response \<Longrightarrow> and_loop response other xs h = Inr h' \<Longrightarrow>
   h' = h[response := add_all (h ! response) (filter (present (h ! other)) xs)]"
proof (induction xs arbitrary: h)
  case Nil
  then show ?case by (simp add: list_update_same_conv [THEN iffD2])
next
  case (Cons x xs)
  show ?case
  proof (cases "present (h ! other) x")
    case True
    let ?h = "h[response := add_all (h ! response) [x]]"
    from True Cons.prems have run: "and_loop response other xs ?h = Inr h'"
      by (auto simp: OpResponse_contains_def present_def [symmetric] add_cell
          split: sum.splits dest: dict_copy_same)
    have "h' = ?h[response := add_all (?h ! response) (filter (present (?h ! other)) xs)]"
      using Cons.prems(1,2) run by (intro Cons.IH) auto
    with True Cons.prems(1,2) show ?thesis by simp
  next
    case False
    with Cons.prems have run: "and_loop response other xs h = Inr h'"
      by (simp add: OpResponse_contains_def present_def [symmetric])
    from Cons.IH [OF Cons.prems(1,2) run] False show ?thesis by simp
  qed
qed

lemma and_loop_returns:
  "list_all is_record xs \<Longrightarrow> \<exists>h'. and_loop response other xs h = Inr h'"
  by (induction xs arbitrary: h) (auto simp: dict_copy_record)

lemma or_loop_other_cell:
  "response < length h \<Longrightarrow> or_loop_other response self xs h = Inr h' \<Longrightarrow>
   h' = h[response := add_all (h ! response) xs]"
proof (induction xs arbitrary: h)
  case Nil
  then show ?case by (simp add: list_update_same_conv [THEN iffD2])
next
  case (Cons x xs)
  let ?h = "h[response := add_all (h ! response) [x]]"
  from Cons.prems have run: "or_loop_other response self xs ?h = Inr h'"
    by (auto simp: add_cell split: sum.splits if_splits dest: dict_copy_same)
  have "h' = ?h[response := add_all (?h ! response) xs]"
    using Cons.prems(1) run by (intro Cons.IH) auto
  with Cons.prems(1) show ?case by simp
qed

lemma or_loop_other_returns:
  "list_all is_record xs \<Longrightarrow> \<exists>h'. or_loop_other response self xs h = Inr h'"
  by (induction xs arbitrary: h) (auto simp: dict_copy_record)

lemma or_loop_self_cell:
  "response < length h \<Longrightarrow>
   or_loop_self response xs h = h[response := add_all (h ! response) xs]"
proof (induction xs arbitrary: h)
  case Nil
  then show ?case by (simp add: list_update_same_conv [THEN iffD2])
next
  case (Cons x xs)
  let ?h = "h[response := add_all (h ! response) [x]]"
  have "or_loop_self response (x # xs) h = or_loop_self response xs ?h"
    using Cons.prems
    by (simp add: add_cell OpResponse_contains_def present_def [symmetric]
        list_update_same_conv [THEN iffD2])
  also have "\<dots> = ?h[response := add_all (?h ! response) xs]"
    using Cons.prems by (intro Cons.IH) auto
  finally show ?case using Cons.prems by simp
qed

lemma OpResponse_and_cell:
  assumes "self < length h" and "other < length h"
    and "OpResponse_and h self other = Inr (r, h')"
  shows "r = length h \<and> h' = h @ [add_all [] (filter (present (h ! other)) (h ! self))]"
proof -
  from assms(3) obtain h2 where
    run: "and_loop (length h) other ((h @ [[]]) ! self) (h @ [[]]) = Inr h2"
    and res: "r = length h" "h' = h2"
    by (auto simp: OpResponse_and_def OpResponse_init_def split: sum.splits)
  from and_loop_cell [OF _ _ run] assms(1,2) res show ?thesis
    by (simp add: nth_append)
qed

lemma OpResponse_and_records:
  assumes "self < length h" and "other < length h" and "list_all is_record (h ! self)"
  shows "OpResponse_and h self other
           = Inr (length h, h @ [add_all [] (filter (present (h ! other)) (h ! self))])"
proof -
  from assms(1,3) and_loop_returns [of "(h @ [[]]) ! self" "length h" other "h @ [[]]"]
  obtain h2 where "and_loop (length h) other ((h @ [[]]) ! self) (h @ [[]]) = Inr h2"
    by (auto simp: nth_append)
  then have "OpResponse_and h self other = Inr (length h, h2)"
    by (simp add: OpResponse_and_def OpResponse_init_def)
  with OpResponse_and_cell [OF assms(1,2) this] show ?thesis by simp
qed

lemma OpResponse_or_cell:
  assumes "self < length h" and "other < length h"
    and "OpResponse_or h self other = Inr (r, h')"
  shows "r = length h \<and> h' = h @ [add_all [] (h ! other @ h ! self)]"
proof -
  from assms(3) obtain h2 where
    run: "or_loop_other (length h) self ((h @ [[]]) ! other) (h @ [[]]) = Inr h2"
    and res: "r = length h" "h' = or_loop_self (length h) (h2 ! self) h2"
    by (auto simp: OpResponse_or_def OpResponse_init_def split: sum.splits)
  from or_loop_other_cell [OF _ run] assms(2)
  have h2: "h2 = h @ [add_all [] (h ! other)]"
    by (simp add: nth_append)
  with res assms(1) show ?thesis
    by (simp add: or_loop_self_cell nth_append add_all_append)
qed

lemma OpResponse_or_records:
  assumes "self < length h" and "other < length h" and "list_all is_record (h ! other)"
  shows "OpResponse_or h self other = Inr (length h, h @ [add_all [] (h ! other @ h ! self)])"
proof -
  from assms(2,3) or_loop_other_returns [of "(h @ [[]]) ! other" "length h" self "h @ [[]]"]
  obtain h2 where "or_loop_other (length h) self ((h @ [[]]) ! other) (h @ [[]]) = Inr h2"
    by (auto simp: nth_append)
  then obtain h3 where "OpResponse_or h self other = Inr (length h, h3)"
    by (simp add: OpResponse_or_def OpResponse_init_def)
  with OpResponse_or_cell [OF assms(1,2) this] show ?thesis by simp
qed

lemma filter_loop_cell:
  "matching < length h \<Longrightarrow> filter_loop matching tag cmp_func xs h = Inr h' \<Longrightarrow>
   h' = h[matching := add_all (h ! matching)
          (filter (\<lambda>obj. \<exists>v. OpResponse_find_value_by_key obj tag = Inr v \<and>
                               cmp_func v = Inr True) xs)]"
proof (induction xs arbitrary: h)
  case Nil
  then show ?case by (simp add: list_update_same_conv [THEN iffD2])
next
  case (Cons x xs)
  let ?P = "\<lambda>obj. \<exists>v. OpResponse_find_value_by_key obj tag = Inr v \<and> cmp_func v = Inr True"
  show ?case
  proof (cases "?P x")
    case True
    let ?h = "h[matching := add_all (h ! matching) [x]]"
    from True Cons.prems have run: "filter_loop matching tag cmp_func xs ?h = Inr h'"
      by (auto simp: add_cell)
    have "h' = ?h[matching := add_all (?h ! matching) (filter ?P xs)]"
      using Cons.prems(1) run by (intro Cons.IH) auto
    with True Cons.prems(1) show ?thesis by simp
  next
    case False
    with Cons.prems have run: "filter_loop matching tag cmp_func xs h = Inr h'"
      by (auto split: sum.splits if_splits)
    from False have skip: "filter ?P (x # xs) = filter ?P xs" by auto
    from Cons.IH [OF Cons.prems(1) run] show ?thesis unfolding skip .
  qed
qed

lemma fuzzy_loop_cell:
  "matching < length h \<Longrightarrow> fuzzy_loop matching cmp_func xs h = Inr h' \<Longrightarrow>
   h' = h[matching := add_all (h ! matching)
          (filter (\<lambda>obj. \<exists>vals. py_values obj = Inr vals \<and>
                               OpResponse_find_value cmp_func vals = Inr True) xs)]"
proof (induction xs arbitrary: h)
  case Nil
  then show ?case by (simp add: list_update_same_conv [THEN iffD2])
next
  case (Cons x xs)
  let ?P = "\<lambda>obj. \<exists>vals. py_values obj = Inr vals \<and>
                       OpResponse_find_value cmp_func vals = Inr True"
  show ?case
  proof (cases "?P x")
    case True
    let ?h = "h[matching := add_all (h ! matching) [x]]"
    from True Cons.prems have run: "fuzzy_loop matching cmp_func xs ?h = Inr h'"
      by (auto simp: add_cell)
    have "h' = ?h[matching := add_all (?h ! matching) (filter ?P xs)]"
      using Cons.prems(1) run by (intro Cons.IH) auto
    with True Cons.prems(1) show ?thesis by simp
  next
    case False
    with Cons.prems have run: "fuzzy_loop matching cmp_func xs h = Inr h'"
      by (auto split: sum.splits if_splits)
    from False have skip: "filter ?P (x # xs) = filter ?P xs" by auto
    from Cons.IH [OF Cons.prems(1) run] show ?thesis unfolding skip .
  qed
qed

lemma OpResponse_filter_cell:
  assumes "self < length h" and "OpResponse_filter h self tag cmp_func = Inr (r, h')"
  shows "r = length h \<and>
         h' = h @ [add_all []
                (filter (\<lambda>obj. \<exists>v. OpResponse_find_value_by_key obj tag = Inr v \<and>
                                     cmp_func v = Inr True) (h ! self))]"
proof -
  from assms(2) obtain h2 where
    run: "filter_loop (length h) tag cmp_func ((h @ [[]]) ! self) (h @ [[]]) = Inr h2"
    and res: "r = length h" "h' = h2"
    by (auto simp: OpResponse_filter_def OpResponse_init_def split: sum.splits)
  from filter_loop_cell [OF _ run] assms(1) res show ?thesis
    by (simp add: nth_append)
qed

lemma OpResponse_fuzzy_cell:
  assumes "self < length h" and "OpResponse_fuzzy h self cmp_func = Inr (r, h')"
  shows "r = length h \<and>
         h' = h @ [add_all []
                (filter (\<lambda>obj. \<exists>vals. py_values obj = Inr vals \<and>
                                     OpResponse_find_value cmp_func vals = Inr True)
                   (h ! self))]"
proof -
  from assms(2) obtain h2 where
    run: "fuzzy_loop (length h) cmp_func ((h @ [[]]) ! self) (h @ [[]]) = Inr h2"
    and res: "r = length h" "h' = h2"
    by (auto simp: OpResponse_fuzzy_def OpResponse_init_def split: sum.splits)
  from fuzzy_loop_cell [OF _ run] assms(1) res show ?thesis
    by (simp add: nth_append)
qed

section \<open>Set operations\<close>

lemma first_occurrences_distinct:
  "no_duplicates xs \<Longrightarrow> first_occurrences xs = xs"
  using add_all_fresh [of "[]" xs] by (simp add: first_occurrences_def)

lemma contains_present: "OpResponse_contains h other = present (h ! other)"
  by (rule ext) (simp add: present_def OpResponse_contains_def)

text \<open>On a record without a \<^verbatim>\<open>copy\<close> method both operations raise.\<close>

lemma copy_raises_on_a_string:
  "OpResponse_and [[JStr ''a''], [JStr ''a'']] 0 1 = Inl AttributeError \<and>
   OpResponse_or [[JInt 5], [JInt 5]] 0 1 = Inl AttributeError"
  by code_simp

text \<open>
  C5, as stated, fails: a record that A holds twice and that is present in B occurs
  twice in the subsequence of A, and once in the intersection, since \<^verbatim>\<open>add\<close> appends a
  record only when it is not yet present.
\<close>

theorem intersect_drops_repeats:
  "OpResponse_and doubled 0 1 = Inr (3, doubled @ [[github]]) \<and>
   filter (OpResponse_contains doubled 1) (doubled ! 0) = [github, github]"
  by code_simp

text \<open>
  C5, amended. For collections A (\<open>self\<close>) and B (\<open>other\<close>), the records of A being dicts,
  the intersection is a new collection holding the subsequence of A whose records are
  present in B, in A's order, each record at its first occurrence only; when A is free of
  duplicates, that is exactly the subsequence.
\<close>

theorem intersect_order_stable:
  assumes "self < length h" and "other < length h" and "list_all is_record (h ! self)"
  shows "OpResponse_and h self other =
           Inr (length h,
                h @ [first_occurrences (filter (OpResponse_contains h other) (h ! self))]) \<and>
         (no_duplicates (h ! self) \<longrightarrow>
            first_occurrences (filter (OpResponse_contains h other) (h ! self))
              = filter (OpResponse_contains h other) (h ! self))"
  using assms
  by (simp add: OpResponse_and_records contains_present first_occurrences_def [symmetric]
      first_occurrences_distinct no_duplicates_filter)

theorem intersect_order_stable_witness:
  "(0::nat) < length vault \<and> (1::nat) < length vault \<and> list_all is_record (vault ! 0) \<and>
   no_duplicates (vault ! 0) \<and>
   OpResponse_and vault 0 1 = Inr (2, vault @ [[github, email]])"
  using intersect_order_stable [of 0 vault 1]
  by (simp add: vault_def github_def gitlab_def email_def OpResponse_contains_def)

text \<open>
  C4, as stated, fails: when B holds a record twice, the union does not start with every
  record of B, it holds that record once.
\<close>

theorem union_drops_repeats:
  "OpResponse_or doubled 2 0 = Inr (3, doubled @ [[github]]) \<and>
   doubled ! 0 @ filter (\<lambda>obj. \<not> OpResponse_contains doubled 0 obj) (doubled ! 2)
     = [github, github]"
  by code_simp

text \<open>
  C4, amended. For collections A (\<open>self\<close>) and B (\<open>other\<close>), the records of B being dicts,
  the union is a new collection holding the records of B in B's order, then those of A in
  A's order, each record at its first occurrence only, so that no record occurs twice in
  it; when A and B are free of duplicates, that is every record of B in B's order, then
  every record of A, in A's order, that is not present in B.
\<close>

theorem union_right_biased:
  assumes "self < length h" and "other < length h" and "list_all is_record (h ! other)"
  shows "OpResponse_or h self other =
           Inr (length h, h @ [first_occurrences (h ! other @ h ! self)]) \<and>
         no_duplicates (first_occurrences (h ! other @ h ! self)) \<and>
         (no_duplicates (h ! self) \<longrightarrow> no_duplicates (h ! other) \<longrightarrow>
            first_occurrences (h ! other @ h ! self)
              = h ! other @ filter (\<lambda>obj. \<not> OpResponse_contains h other obj) (h ! self))"
proof -
  have nd: "no_duplicates (first_occurrences (h ! other @ h ! self))"
    unfolding first_occurrences_def by (rule no_duplicates_add_all) simp
  have "first_occurrences (h ! other @ h ! self)
      = h ! other @ filter (\<lambda>obj. \<not> OpResponse_contains h other obj) (h ! self)"
    if a: "no_duplicates (h ! self)" and b: "no_duplicates (h ! other)"
  proof -
    have "add_all [] (h ! other) = h ! other"
      using b add_all_fresh [of "[]" "h ! other"] by simp
    with a show ?thesis
      by (simp add: first_occurrences_def add_all_append add_all_skip contains_present)
  qed
  with nd assms show ?thesis
    by (simp add: OpResponse_or_records first_occurrences_def [symmetric])
qed

theorem union_right_biased_witness:
  "(0::nat) < length vault \<and> (1::nat) < length vault \<and> list_all is_record (vault ! 1) \<and>
   no_duplicates (vault ! 0) \<and> no_duplicates (vault ! 1) \<and>
   OpResponse_or vault 0 1 = Inr (2, vault @ [[email, github, gitlab]]) \<and>
   no_duplicates [email, github, gitlab]"
  using union_right_biased [of 0 vault 1]
  by (simp add: vault_def github_def gitlab_def email_def OpResponse_contains_def)

text \<open>
  C10. For a record collection A free of duplicates (its records dicts, their keys
  distinct at every level), the union of A with A and the intersection of A with A are
  new collections holding exactly the records of A, in A's order. The two operands may be
  one object or two objects with the same contents.
\<close>

theorem union_intersect_idempotent:
  assumes "self < length h" and "other < length h" and "h ! other = h ! self"
    and "no_duplicates (h ! self)"
    and "\<forall>obj \<in> set (h ! self). is_record obj \<and> wf_value obj"
  shows "OpResponse_or h self other = Inr (length h, h @ [h ! self]) \<and>
         OpResponse_and h self other = Inr (length h, h @ [h ! self])"
proof -
  from assms(5) have records: "list_all is_record (h ! self)"
    by (simp add: list_all_iff)
  have here: "present (h ! self) obj" if "obj \<in> set (h ! self)" for obj
    using that assms(5) py_eq_refl [of obj] by (auto simp: present_def list_ex_iff)
  have once: "add_all [] (h ! self) = h ! self"
    using assms(4) add_all_fresh [of "[]" "h ! self"] by simp
  have "add_all (h ! self) (h ! self) = h ! self"
    by (rule add_all_absorbed) (simp add: here)
  with once have union: "add_all [] (h ! self @ h ! self) = h ! self"
    by (simp add: add_all_append)
  have "filter (present (h ! self)) (h ! self) = h ! self"
    by (simp add: here)
  with once have inter: "add_all [] (filter (present (h ! self)) (h ! self)) = h ! self"
    by simp
  from assms(1,2,3) records union inter show ?thesis
    by (simp add: OpResponse_or_records OpResponse_and_records)
qed

theorem union_intersect_idempotent_witness:
  "(0::nat) < length vault \<and> vault ! 0 = vault ! 0 \<and> no_duplicates (vault ! 0) \<and>
   list_all (\<lambda>obj. is_record obj \<and> wf_value obj) (vault ! 0) \<and>
   OpResponse_or vault 0 0 = Inr (2, vault @ [[github, gitlab, email]]) \<and>
   OpResponse_and vault 0 0 = Inr (2, vault @ [[github, gitlab, email]])"
  using union_intersect_idempotent [of 0 vault 0]
  by (simp add: vault_def github_def gitlab_def email_def list_all_iff)

section \<open>Runs on the example store\<close>

lemma filter_example:
  "OpResponse_filter vault 0 ''title'' (OpFilter_match ''^Git.*$'')
     = Inr (2, vault @ [[github, gitlab]])"
  by code_simp

lemma fuzzy_example:
  "OpResponse_fuzzy vault 0 (OpFuzzy_match ''^git.*$'') = Inr (2, vault @ [[github, gitlab]])"
  by code_simp

section \<open>The uniqueness invariant\<close>

text \<open>
  C8, as stated, fails: constructing a collection from a source copies the source as it
  is, so a source that holds a record twice gives a collection that holds it twice.
\<close>

theorem copy_keeps_duplicates:
  "OpResponse_init [[github, github]] (Some 0) = (1, [[github, github], [github, github]]) \<and>
   \<not> no_duplicates [github, github]"
  by (simp add: OpResponse_init_def github_def)

text \<open>
  C8, amended. Field filter, fuzzy scan, union and intersection, when they return, return
  a collection free of duplicates, whatever their operands hold; \<^verbatim>\<open>add\<close> keeps a collection free of duplicates;
  construction without a source gives the empty collection; construction or copy from a
  source gives a collection free of duplicates exactly when the source is.
\<close>

theorem uniqueness_kept:
  assumes "self < length h" and "other < length h"
  shows "(case OpResponse_init h None of (r, h') \<Rightarrow> no_duplicates (h' ! r)) \<and>
         (case OpResponse_init h (Some self) of
            (r, h') \<Rightarrow> no_duplicates (h' ! r) = no_duplicates (h ! self)) \<and>
         (case OpResponse_copy h self of
            (r, h') \<Rightarrow> no_duplicates (h' ! r) = no_duplicates (h ! self)) \<and>
         (no_duplicates (h ! self) \<longrightarrow> no_duplicates (OpResponse_add h self obj ! self)) \<and>
         (case OpResponse_filter h self tag cmp_func of
            Inl e \<Rightarrow> True | Inr (r, h') \<Rightarrow> no_duplicates (h' ! r)) \<and>
         (case OpResponse_fuzzy h self cmp_func of
            Inl e \<Rightarrow> True | Inr (r, h') \<Rightarrow> no_duplicates (h' ! r)) \<and>
         (case OpResponse_or h self other of
            Inl e \<Rightarrow> True | Inr (r, h') \<Rightarrow> no_duplicates (h' ! r)) \<and>
         (case OpResponse_and h self other of
            Inl e \<Rightarrow> True | Inr (r, h') \<Rightarrow> no_duplicates (h' ! r))"
proof -
  have fresh: "no_duplicates (add_all [] xs)" for xs
    by (rule no_duplicates_add_all) simp
  have init: "case OpResponse_init h None of (r, h') \<Rightarrow> no_duplicates (h' ! r)"
    by (simp add: OpResponse_init_def)
  have src: "case OpResponse_init h (Some self) of
      (r, h') \<Rightarrow> no_duplicates (h' ! r) = no_duplicates (h ! self)"
    by (simp add: OpResponse_init_def)
  have add: "no_duplicates (h ! self) \<longrightarrow> no_duplicates (OpResponse_add h self obj ! self)"
    using assms(1) no_duplicates_add_all [of "h ! self" "[obj]"] by (simp add: add_cell)
  have flt: "case OpResponse_filter h self tag cmp_func of
      Inl e \<Rightarrow> True | Inr (r, h') \<Rightarrow> no_duplicates (h' ! r)"
  proof (cases "OpResponse_filter h self tag cmp_func")
    case (Inr p)
    obtain r h' where p: "p = (r, h')" by (cases p)
    from OpResponse_filter_cell [OF assms(1) Inr [unfolded p]] Inr p show ?thesis
      by (simp add: fresh)
  qed simp
  have fuz: "case OpResponse_fuzzy h self cmp_func of
      Inl e \<Rightarrow> True | Inr (r, h') \<Rightarrow> no_duplicates (h' ! r)"
  proof (cases "OpResponse_fuzzy h self cmp_func")
    case (Inr p)
    obtain r h' where p: "p = (r, h')" by (cases p)
    from OpResponse_fuzzy_cell [OF assms(1) Inr [unfolded p]] Inr p show ?thesis
      by (simp add: fresh)
  qed simp
  have union: "case OpResponse_or h self other of
      Inl e \<Rightarrow> True | Inr (r, h') \<Rightarrow> no_duplicates (h' ! r)"
  proof (cases "OpResponse_or h self other")
    case (Inr p)
    obtain r h' where p: "p = (r, h')" by (cases p)
    from OpResponse_or_cell [OF assms Inr [unfolded p]] Inr p show ?thesis
      by (simp add: fresh)
  qed simp
  have inter: "case OpResponse_and h self other of
      Inl e \<Rightarrow> True | Inr (r, h') \<Rightarrow> no_duplicates (h' ! r)"
  proof (cases "OpResponse_and h self other")
    case (Inr p)
    obtain r h' where p: "p = (r, h')" by (cases p)
    from OpResponse_and_cell [OF assms Inr [unfolded p]] Inr p show ?thesis
      by (simp add: fresh)
  qed simp
  from init src add flt fuz union inter show ?thesis
    by (simp add: OpResponse_copy_def)
qed

theorem uniqueness_kept_witness:
  "(0::nat) < length vault \<and> (1::nat) < length vault \<and> no_duplicates (vault ! 0) \<and>
   no_duplicates (OpResponse_add vault 0 github ! 0) \<and>
   OpResponse_filter vault 0 ''title'' (OpFilter_match ''^Git.*$'')
     = Inr (2, vault @ [[github, gitlab]]) \<and>
   no_duplicates ((vault @ [[github, gitlab]]) ! 2)"
proof -
  have a: "(0::nat) < length vault" and b: "(1::nat) < length vault"
    and c: "no_duplicates (vault ! 0)"
    by (simp_all add: vault_def github_def gitlab_def email_def)
  from uniqueness_kept [OF a b, of github "''title''" "OpFilter_match ''^Git.*$''"]
  have "no_duplicates (OpResponse_add vault 0 github ! 0)"
    and "no_duplicates ((vault @ [[github, gitlab]]) ! 2)"
    using c by (simp_all add: filter_example)
  with a b c show ?thesis by (simp add: filter_example)
qed

section \<open>Frame: the store before a query is left as it was\<close>

lemma evaluate_expression_frame:
  "objs < length h \<Longrightarrow> evaluate_expression h objs (Some e) = Inr (r, h') \<Longrightarrow>
   \<exists>a ext. r = Some a \<and> h' = h @ ext \<and> length h \<le> a \<and> a < length h'"
proof (induction e arbitrary: h r h')
  case (OpFilter name pattern)
  then obtain a where run: "OpResponse_filter h objs name (OpFilter_match pattern) = Inr (a, h')"
    and r: "r = Some a"
    by (auto split: sum.splits)
  from OpResponse_filter_cell [OF OpFilter.prems(1) run] r show ?case by auto
next
  case (OpFuzzy pattern)
  then obtain a where run: "OpResponse_fuzzy h objs (OpFuzzy_match pattern) = Inr (a, h')"
    and r: "r = Some a"
    by (auto split: sum.splits)
  from OpResponse_fuzzy_cell [OF OpFuzzy.prems(1) run] r show ?case by auto
next
  case (OpUnionOperator e1 e2)
  from OpUnionOperator.prems(2) obtain left h1 right h2 where
    l: "evaluate_expression h objs (Some e1) = Inr (left, h1)" and
    r: "evaluate_expression h1 objs (Some e2) = Inr (right, h2)"
    by (auto split: sum.splits)
  from OpUnionOperator.IH(1) [OF OpUnionOperator.prems(1) l] obtain a ext1 where
    a: "left = Some a" "h1 = h @ ext1" "length h \<le> a" "a < length h1" by blast
  with OpUnionOperator.prems(1) have "objs < length h1" by simp
  from OpUnionOperator.IH(2) [OF this r] obtain b ext2 where
    b: "right = Some b" "h2 = h1 @ ext2" "length h1 \<le> b" "b < length h2" by blast
  from a b have a2: "a < length h2" by simp
  from OpUnionOperator.prems(2) l r a b obtain u where
    run: "OpResponse_or h2 a b = Inr (u, h')" and u: "r = Some u"
    by (auto split: sum.splits)
  from OpResponse_or_cell [OF a2 b(4) run] u a b show ?case by auto
next
  case (OpIntersectionOperator e1 e2)
  from OpIntersectionOperator.prems(2) obtain left h1 right h2 where
    l: "evaluate_expression h objs (Some e1) = Inr (left, h1)" and
    r: "evaluate_expression h1 objs (Some e2) = Inr (right, h2)"
    by (auto split: sum.splits)
  from OpIntersectionOperator.IH(1) [OF OpIntersectionOperator.prems(1) l] obtain a ext1 where
    a: "left = Some a" "h1 = h @ ext1" "length h \<le> a" "a < length h1" by blast
  with OpIntersectionOperator.prems(1) have "objs < length h1" by simp
  from OpIntersectionOperator.IH(2) [OF this r] obtain b ext2 where
    b: "right = Some b" "h2 = h1 @ ext2" "length h1 \<le> b" "b < length h2" by blast
  from a b have a2: "a < length h2" by simp
  from OpIntersectionOperator.prems(2) l r a b obtain u where
    run: "OpResponse_and h2 a b = Inr (u, h')" and u: "r = Some u"
    by (auto split: sum.splits)
  from OpResponse_and_cell [OF a2 b(4) run] u a b show ?case by auto
qed

text \<open>
  C9. Field filter, fuzzy scan, union and intersection each return a collection at a new
  address and leave every cell of the store they started from as it was: the contents and
  the order of their operands are unchanged. So does the evaluation of a whole query on a
  database, whose result, when it is a collection, is at a new address.
\<close>

theorem query_leaves_store_unchanged:
  assumes "self < length h" and "other < length h"
  shows "(case OpResponse_filter h self tag cmp_func of
            Inl e \<Rightarrow> True | Inr (r, h') \<Rightarrow> r = length h \<and> take (length h) h' = h) \<and>
         (case OpResponse_fuzzy h self cmp_func of
            Inl e \<Rightarrow> True | Inr (r, h') \<Rightarrow> r = length h \<and> take (length h) h' = h) \<and>
         (case OpResponse_or h self other of
            Inl e \<Rightarrow> True | Inr (r, h') \<Rightarrow> r = length h \<and> take (length h) h' = h) \<and>
         (case OpResponse_and h self other of
            Inl e \<Rightarrow> True | Inr (r, h') \<Rightarrow> r = length h \<and> take (length h) h' = h) \<and>
         (case OpDatabase_evaluate_ast h self ast of
            Inl e \<Rightarrow> True
          | Inr (r, h') \<Rightarrow>
              take (length h) h' = h \<and> (case r of None \<Rightarrow> True | Some a \<Rightarrow> length h \<le> a))"
proof -
  have flt: "case OpResponse_filter h self tag cmp_func of
      Inl e \<Rightarrow> True | Inr (r, h') \<Rightarrow> r = length h \<and> take (length h) h' = h"
  proof (cases "OpResponse_filter h self tag cmp_func")
    case (Inr p)
    obtain r h' where p: "p = (r, h')" by (cases p)
    from OpResponse_filter_cell [OF assms(1) Inr [unfolded p]] Inr p show ?thesis by simp
  qed simp
  have fuz: "case OpResponse_fuzzy h self cmp_func of
      Inl e \<Rightarrow> True | Inr (r, h') \<Rightarrow> r = length h \<and> take (length h) h' = h"
  proof (cases "OpResponse_fuzzy h self cmp_func")
    case (Inr p)
    obtain r h' where p: "p = (r, h')" by (cases p)
    from OpResponse_fuzzy_cell [OF assms(1) Inr [unfolded p]] Inr p show ?thesis by simp
  qed simp
  have ev: "case OpDatabase_evaluate_ast h self ast of
      Inl e \<Rightarrow> True
    | Inr (r, h') \<Rightarrow>
        take (length h) h' = h \<and> (case r of None \<Rightarrow> True | Some a \<Rightarrow> length h \<le> a)"
  proof (cases "OpDatabase_evaluate_ast h self ast")
    case (Inr p)
    obtain r h' where p: "p = (r, h')" by (cases p)
    with Inr have run: "evaluate_expression (h @ [h ! self]) (length h) (expression ast)
        = Inr (r, h')"
      by (simp add: OpDatabase_evaluate_ast_def OpResponse_init_def)
    show ?thesis
    proof (cases "expression ast")
      case None
      with run Inr p show ?thesis by auto
    next
      case (Some e)
      with run evaluate_expression_frame [of "length h" "h @ [h ! self]" e r h']
      obtain a ext where "r = Some a" "h' = (h @ [h ! self]) @ ext" "length h < a"
        by auto
      with Inr p show ?thesis by simp
    qed
  qed simp
  have union: "case OpResponse_or h self other of
      Inl e \<Rightarrow> True | Inr (r, h') \<Rightarrow> r = length h \<and> take (length h) h' = h"
  proof (cases "OpResponse_or h self other")
    case (Inr p)
    obtain r h' where p: "p = (r, h')" by (cases p)
    from OpResponse_or_cell [OF assms Inr [unfolded p]] Inr p show ?thesis by simp
  qed simp
  have inter: "case OpResponse_and h self other of
      Inl e \<Rightarrow> True | Inr (r, h') \<Rightarrow> r = length h \<and> take (length h) h' = h"
  proof (cases "OpResponse_and h self other")
    case (Inr p)
    obtain r h' where p: "p = (r, h')" by (cases p)
    from OpResponse_and_cell [OF assms Inr [unfolded p]] Inr p show ?thesis by simp
  qed simp
  from flt fuz union inter ev show ?thesis
    by simp
qed

theorem query_leaves_store_unchanged_witness:
  "(0::nat) < length vault \<and> (1::nat) < length vault \<and>
   OpResponse_filter vault 0 ''title'' (OpFilter_match ''^Git.*$'')
     = Inr (2, vault @ [[github, gitlab]]) \<and>
   (2::nat) = length vault \<and> take (length vault) (vault @ [[github, gitlab]]) = vault"
proof -
  have a: "(0::nat) < length vault" and b: "(1::nat) < length vault"
    by (simp_all add: vault_def)
  from query_leaves_store_unchanged [OF a b, of "''title''" "OpFilter_match ''^Git.*$''"]
  have "(2::nat) = length vault \<and> take (length vault) (vault @ [[github, gitlab]]) = vault"
    by (simp add: filter_example)
  with a b show ?thesis by (simp add: filter_example)
qed

section \<open>Field paths that do not resolve\<close>

lemma filter_loop_keys_absent:
  "\<forall>obj \<in> set xs. OpResponse_find_value_by_key obj tag = Inl KeyError \<Longrightarrow>
   filter_loop matching tag cmp_func xs h = Inr h"
  by (induction xs) auto

text \<open>
  What \<^verbatim>\<open>filter\<close> does catch: when the walk ends in a \<^verbatim>\<open>KeyError\<close> in every record (a
  dict on the path lacks the key), the result is the empty collection.
\<close>

lemma filter_keys_absent:
  assumes "self < length h"
    and "\<forall>obj \<in> set (h ! self). OpResponse_find_value_by_key obj tag = Inl KeyError"
  shows "OpResponse_filter h self tag cmp_func = Inr (length h, h @ [[]])"
  using assms
  by (simp add: OpResponse_filter_def OpResponse_init_def nth_append filter_loop_keys_absent)

text \<open>
  C2. The claim is that a path which resolves in no record gives the empty collection
  and never raises. In the record \<^verbatim>\<open>{"title": "Github"}\<close> the path \<^verbatim>\<open>title.x\<close> does not
  resolve: the walk reaches the string \<^verbatim>\<open>"Github"\<close> and indexes it with \<^verbatim>\<open>"x"\<close>, which
  raises \<^verbatim>\<open>TypeError\<close>; \<^verbatim>\<open>filter\<close> catches \<^verbatim>\<open>KeyError\<close> only, so the query raises. The
  path \<^verbatim>\<open>name\<close>, a key that the dict lacks, gives the empty collection.
\<close>

theorem filter_raises_below_a_leaf:
  \<open>OpResponse_find_value_by_key github ''title.x'' = Inl TypeError \<and>
   OpResponse_filter [[github]] 0 ''title.x'' (OpFilter_match ''^a$'') = Inl TypeError \<and>
   OpDatabase_raw_query [[github]] 0 (Some ''title.x="a"'') = Inl TypeError \<and>
   OpDatabase_raw_query [[github]] 0 (Some ''name="a"'') = Inr (Some 2, [[github], [github], []])\<close>
  by code_simp

section \<open>Numeric literals\<close>

text \<open>
  C7. The claim is that \<^verbatim>\<open>field=5\<close> matches a record whose field holds the number 5 as
  well as one whose field holds the string \<^verbatim>\<open>"5"\<close>. \<^verbatim>\<open>OpFilter.match\<close> hands the field's
  value to \<^verbatim>\<open>re.match\<close> as it is, and \<^verbatim>\<open>re.match\<close> raises \<^verbatim>\<open>TypeError\<close> on a number;
  \<^verbatim>\<open>OpFuzzy.match\<close> formats the value first and matches.
\<close>

theorem filter_raises_on_stored_number:
  \<open>OpDatabase_raw_query [[JDict [(''field'', JInt 5)]]] 0 (Some ''field=5'') = Inl TypeError \<and>
   OpFilter_match ''^5$'' (JInt 5) = Inl TypeError \<and>
   OpFuzzy_match ''^5$'' (JInt 5) = Inr True \<and>
   OpDatabase_raw_query [[JDict [(''field'', JStr ''5'')]]] 0 (Some ''field=5'')
     = Inr (Some 2, [[JDict [(''field'', JStr ''5'')]], [JDict [(''field'', JStr ''5'')]],
                     [JDict [(''field'', JStr ''5'')]]])\<close>
  by code_simp

section \<open>The empty query\<close>

text \<open>
  C1. The claim is that the empty query string parses to an AST without expression and
  that evaluating such an AST returns a copy of the whole collection. The grammar has the
  single rule \<^verbatim>\<open>input : expr\<close> for its start symbol, so \<^verbatim>\<open>len(p) == 1\<close> in \<^verbatim>\<open>p_input\<close>
  never holds and the empty string is a syntax error at the end of the input; and
  \<^verbatim>\<open>_evaluate_expression\<close> has no branch for \<^verbatim>\<open>None\<close>, so an AST without expression
  evaluates to \<^verbatim>\<open>None\<close>, not to a collection. Only \<^verbatim>\<open>raw_query(None)\<close> returns the copy.
\<close>

theorem empty_query_is_rejected:
  "OpTqlParser_parse [] = Inl (ParsingError None) \<and>
   OpDatabase_raw_query h db (Some []) = Inl (ParsingError None) \<and>
   OpDatabase_evaluate_ast h db (OpTqlAst None) = Inr (None, h @ [h ! db]) \<and>
   OpDatabase_raw_query h db None = Inr (Some (length h), h @ [h ! db])"
proof -
  have "OpTqlParser_parse [] = Inl (ParsingError None)"
    by code_simp
  then show ?thesis
    by (simp add: OpDatabase_raw_query_def OpDatabase_evaluate_ast_def OpResponse_init_def)
qed

section \<open>Operator grouping\<close>

lemma run_continue:
  "yacc_step stack inp = Continue stack' inp' \<Longrightarrow> yacc_run stack inp = yacc_run stack' inp'"
  by simp

lemma prec_of_operator: "is_operator a \<Longrightarrow> prec_of a = (Assoc_left, 1)"
  by (auto simp: is_operator_def prec_of_def precedence_def token_type_def)

text \<open>Both operators sit on the one level of the table, which is left-associative.\<close>

lemma resolve_operators: "is_operator op \<Longrightarrow> is_operator a \<Longrightarrow> resolve op a = Do_reduce"
  by (simp add: resolve_def prec_of_operator)

lemma shift_start:
  "awaits_expr stack \<Longrightarrow> starts_expr a \<Longrightarrow>
   yacc_step stack (a # rest) = Continue (Tok a # stack) rest"
  by (auto simp: awaits_expr_def yacc_step_def shift_if_def is_operator_def
      split: list.splits symbol.splits)

lemma reduce_bare_name:
  "operator_follows rest \<Longrightarrow>
   yacc_step (Tok (NAME n) # stack) rest = Continue (Expr (OpFuzzy_init (LitStr n)) # stack) rest"
  by (auto simp: operator_follows_def yacc_step_def after_name_def p_expr_fuzzy_def
      is_operator_def split: list.splits)

lemma reduce_bare_literal:
  "awaits_expr stack \<Longrightarrow>
   yacc_step (Tok (STRING s) # stack) rest
     = Continue (Expr (OpFuzzy_init (LitStr s)) # stack) rest \<and>
   yacc_step (Tok (NUMBER i) # stack) rest
     = Continue (Expr (OpFuzzy_init (LitInt i)) # stack) rest"
  by (auto simp: awaits_expr_def yacc_step_def reduce_literal_def p_expr_fuzzy_def
      is_operator_def split: list.splits symbol.splits)

lemma shift_equals:
  "yacc_step (Tok (NAME n) # stack) (EQUALS # rest)
     = Continue (Tok EQUALS # Tok (NAME n) # stack) rest"
  by (simp add: yacc_step_def after_name_def)

lemma shift_value:
  "yacc_step (Tok EQUALS # stack) (STRING s # rest) = Continue (Tok (STRING s) # Tok EQUALS # stack) rest \<and>
   yacc_step (Tok EQUALS # stack) (NUMBER i # rest) = Continue (Tok (NUMBER i) # Tok EQUALS # stack) rest"
  by (simp add: yacc_step_def shift_if_def)

lemma reduce_pair:
  "yacc_step (Tok (STRING s) # Tok EQUALS # Tok (NAME n) # stack) rest
     = Continue (Expr (OpFilter_init n (LitStr s)) # stack) rest \<and>
   yacc_step (Tok (NUMBER i) # Tok EQUALS # Tok (NAME n) # stack) rest
     = Continue (Expr (OpFilter_init n (LitInt i)) # stack) rest"
  by (simp add: yacc_step_def reduce_literal_def p_expr_pair_def)

lemma leaf_reduced:
  assumes "awaits_expr stack" and "operator_follows rest"
  shows "yacc_run stack (leaf_tokens l @ rest) = yacc_run (Expr (leaf_ast l) # stack) rest"
proof (cases l)
  case (Bare_name n)
  have "yacc_run stack (NAME n # rest) = yacc_run (Tok (NAME n) # stack) rest"
    using assms(1) by (intro run_continue shift_start) (simp_all add: starts_expr_def)
  also have "\<dots> = yacc_run (Expr (OpFuzzy_init (LitStr n)) # stack) rest"
    using assms(2) by (intro run_continue reduce_bare_name)
  finally show ?thesis using Bare_name by simp
next
  case (Bare_string s)
  have "yacc_run stack (STRING s # rest) = yacc_run (Tok (STRING s) # stack) rest"
    using assms(1) by (intro run_continue shift_start) (simp_all add: starts_expr_def)
  also have "\<dots> = yacc_run (Expr (OpFuzzy_init (LitStr s)) # stack) rest"
    using reduce_bare_literal [OF assms(1)] by (intro run_continue) blast
  finally show ?thesis using Bare_string by simp
next
  case (Bare_number i)
  have "yacc_run stack (NUMBER i # rest) = yacc_run (Tok (NUMBER i) # stack) rest"
    using assms(1) by (intro run_continue shift_start) (simp_all add: starts_expr_def)
  also have "\<dots> = yacc_run (Expr (OpFuzzy_init (LitInt i)) # stack) rest"
    using reduce_bare_literal [OF assms(1)] by (intro run_continue) blast
  finally show ?thesis using Bare_number by simp
next
  case (Pair_string n s)
  have "yacc_run stack (NAME n # EQUALS # STRING s # rest)
      = yacc_run (Tok (NAME n) # stack) (EQUALS # STRING s # rest)"
    using assms(1) by (intro run_continue shift_start) (simp_all add: starts_expr_def)
  also have "\<dots> = yacc_run (Tok EQUALS # Tok (NAME n) # stack) (STRING s # rest)"
    by (intro run_continue shift_equals)
  also have "\<dots> = yacc_run (Tok (STRING s) # Tok EQUALS # Tok (NAME n) # stack) rest"
    using shift_value by (intro run_continue) blast
  also have "\<dots> = yacc_run (Expr (OpFilter_init n (LitStr s)) # stack) rest"
    using reduce_pair by (intro run_continue) blast
  finally show ?thesis using Pair_string by simp
next
  case (Pair_number n i)
  have "yacc_run stack (NAME n # EQUALS # NUMBER i # rest)
      = yacc_run (Tok (NAME n) # stack) (EQUALS # NUMBER i # rest)"
    using assms(1) by (intro run_continue shift_start) (simp_all add: starts_expr_def)
  also have "\<dots> = yacc_run (Tok EQUALS # Tok (NAME n) # stack) (NUMBER i # rest)"
    by (intro run_continue shift_equals)
  also have "\<dots> = yacc_run (Tok (NUMBER i) # Tok EQUALS # Tok (NAME n) # stack) rest"
    using shift_value by (intro run_continue) blast
  also have "\<dots> = yacc_run (Expr (OpFilter_init n (LitInt i)) # stack) rest"
    using reduce_pair by (intro run_continue) blast
  finally show ?thesis using Pair_number by simp
qed

lemma is_operator_token: "is_operator (operator_token oper)"
  by (cases oper) (simp_all add: is_operator_def)

lemma operator_follows_chain: "operator_follows (chain_tokens ops)"
  by (cases ops rule: chain_tokens.cases) (simp_all add: operator_follows_def is_operator_token)

lemma shift_operator:
  "yacc_step [Expr e] (operator_token oper # rest)
     = Continue [Tok (operator_token oper), Expr e] rest"
  by (cases oper) (simp_all add: yacc_step_def after_expr_def shift_if_def is_operator_def)

lemma reduce_operator:
  "operator_follows rest \<Longrightarrow>
   yacc_step (Expr r # Tok (operator_token oper) # Expr l # stack) rest
     = Continue (Expr (operator_node oper l r) # stack) rest"
  by (cases oper; cases rest)
    (auto simp: yacc_step_def after_expr_def operator_follows_def p_expr_binary_def
      resolve_operators is_operator_def)

lemma chain_grouped:
  "yacc_run [Expr e] (chain_tokens ops) = Inr (OpTqlAst (Some (left_grouping e ops)))"
proof (induction ops arbitrary: e)
  case Nil
  show ?case by (simp add: yacc_step_def after_expr_def p_input_def)
next
  case (Cons p ops)
  obtain oper l where p: "p = (oper, l)" by (cases p)
  have waits: "awaits_expr [Tok (operator_token oper), Expr e]"
    by (cases oper) (simp_all add: awaits_expr_def is_operator_def)
  have "yacc_run [Expr e] (chain_tokens (p # ops))
      = yacc_run [Tok (operator_token oper), Expr e] (leaf_tokens l @ chain_tokens ops)"
    unfolding p chain_tokens.simps by (intro run_continue shift_operator)
  also have "\<dots> = yacc_run [Expr (leaf_ast l), Tok (operator_token oper), Expr e] (chain_tokens ops)"
    by (intro leaf_reduced waits operator_follows_chain)
  also have "\<dots> = yacc_run [Expr (operator_node oper e (leaf_ast l))] (chain_tokens ops)"
    by (intro run_continue reduce_operator operator_follows_chain)
  also have "\<dots> = Inr (OpTqlAst (Some (left_grouping (operator_node oper e (leaf_ast l)) ops)))"
    by (rule Cons.IH)
  finally show ?case by (simp add: p)
qed

text \<open>
  C3, as stated, fails on its second example: after \<^verbatim>\<open>NAME EQUALS\<close> the grammar admits a
  \<^verbatim>\<open>STRING\<close> (which the lexer recognises by its double quotes) or a \<^verbatim>\<open>NUMBER\<close>, so
  \<^verbatim>\<open>name=a\<close>, where \<^verbatim>\<open>a\<close> is a \<^verbatim>\<open>NAME\<close>, is a syntax error at \<^verbatim>\<open>a\<close>.
\<close>

theorem unquoted_pair_is_rejected:
  "tokenize ''name=a|name=b&name=c''
     = [NAME ''name'', EQUALS, NAME ''a'', OR, NAME ''name'', EQUALS, NAME ''b'', AND,
        NAME ''name'', EQUALS, NAME ''c''] \<and>
   OpTqlParser_parse ''name=a|name=b&name=c'' = Inl (ParsingError (Some (NAME ''a'')))"
  by code_simp

text \<open>
  C3, amended. \<^verbatim>\<open>AND\<close> and \<^verbatim>\<open>OR\<close> share one precedence level, which is left-associative:
  every unparenthesized query, a leaf followed by operators and leaves in any mix, parses
  with the grouping strictly from the left. So \<^verbatim>\<open>a&b|c\<close> parses as \<^verbatim>\<open>(a&b)|c\<close>, and
  \<^verbatim>\<open>name="a"|name="b"&name="c"\<close> (the values quoted) parses as
  \<^verbatim>\<open>(name="a"|name="b")&name="c"\<close>.
\<close>

theorem operators_group_from_the_left:
  \<open>yacc_run [] (leaf_tokens l @ chain_tokens ops)
     = Inr (OpTqlAst (Some (left_grouping (leaf_ast l) ops))) \<and>
   prec_of OR = (Assoc_left, 1) \<and> prec_of AND = (Assoc_left, 1) \<and>
   OpTqlParser_parse ''a&b|c''
     = Inr (OpTqlAst (Some (OpUnionOperator
         (OpIntersectionOperator (OpFuzzy ''^a$'') (OpFuzzy ''^b$'')) (OpFuzzy ''^c$'')))) \<and>
   OpTqlParser_parse ''a&b|c'' = OpTqlParser_parse ''(a&b)|c'' \<and>
   OpTqlParser_parse ''name="a"|name="b"&name="c"''
     = Inr (OpTqlAst (Some (OpIntersectionOperator
         (OpUnionOperator (OpFilter ''name'' ''^a$'') (OpFilter ''name'' ''^b$''))
         (OpFilter ''name'' ''^c$'')))) \<and>
   OpTqlParser_parse ''name="a"|name="b"&name="c"''
     = OpTqlParser_parse ''(name="a"|name="b")&name="c"''\<close>
proof -
  have "yacc_run [] (leaf_tokens l @ chain_tokens ops)
      = yacc_run [Expr (leaf_ast l)] (chain_tokens ops)"
    by (intro leaf_reduced operator_follows_chain) (simp add: awaits_expr_def)
  then have general: "yacc_run [] (leaf_tokens l @ chain_tokens ops)
      = Inr (OpTqlAst (Some (left_grouping (leaf_ast l) ops)))"
    by (simp only: chain_grouped)
  have levels: "prec_of OR = (Assoc_left, 1) \<and> prec_of AND = (Assoc_left, 1)"
    by (simp add: prec_of_operator is_operator_def)
  have bare: "OpTqlParser_parse ''a&b|c''
      = Inr (OpTqlAst (Some (OpUnionOperator
          (OpIntersectionOperator (OpFuzzy ''^a$'') (OpFuzzy ''^b$'')) (OpFuzzy ''^c$''))))"
    by code_simp
  have bare_par: "OpTqlParser_parse ''(a&b)|c''
      = Inr (OpTqlAst (Some (OpUnionOperator
          (OpIntersectionOperator (OpFuzzy ''^a$'') (OpFuzzy ''^b$'')) (OpFuzzy ''^c$''))))"
    by code_simp
  have pairs: \<open>OpTqlParser_parse ''name="a"|name="b"&name="c"''
      = Inr (OpTqlAst (Some (OpIntersectionOperator
          (OpUnionOperator (OpFilter ''name'' ''^a$'') (OpFilter ''name'' ''^b$''))
          (OpFilter ''name'' ''^c$''))))\<close>
    by code_simp
  have pairs_par: \<open>OpTqlParser_parse ''(name="a"|name="b")&name="c"''
      = Inr (OpTqlAst (Some (OpIntersectionOperator
          (OpUnionOperator (OpFilter ''name'' ''^a$'') (OpFilter ''name'' ''^b$''))
          (OpFilter ''name'' ''^c$''))))\<close>
    by code_simp
  from general levels bare bare_par pairs pairs_par show ?thesis
    by (simp only: simp_thms)
qed

section \<open>Anchored patterns\<close>

lemma star_run:
  assumes rest: "\<And>t. newline \<notin> set t \<Longrightarrow> re_match_at ic ps t = glob_match ic cs t"
    and "newline \<notin> set t"
  shows "re_match_at ic (CHR ''.'' # CHR ''*'' # ps) t = glob_match ic (CHR ''*'' # cs) t"
  using assms(2)
proof (induction t)
  case Nil
  then show ?case using rest [of "[]"] by simp
next
  case (Cons d ds)
  then have "re_match_at ic (CHR ''.'' # CHR ''*'' # ps) ds = glob_match ic (CHR ''*'' # cs) ds"
    by simp
  moreover from Cons.prems have "d \<noteq> newline" by auto
  moreover have "re_match_at ic ps (d # ds) = glob_match ic cs (d # ds)"
    using Cons.prems by (rule rest)
  ultimately show ?case by simp
qed

lemma anchored_body:
  "plain_literal s \<Longrightarrow> newline \<notin> set t \<Longrightarrow>
   re_match_at ic (replace_star s @ ''$'') t = glob_match ic s t"
proof (induction s arbitrary: t)
  case Nil
  then show ?case by (auto simp: newline_def)
next
  case step: (Cons c cs)
  from step.prems(1) have plain: "plain_literal cs"
    and c: "c \<noteq> CHR ''.''" "c \<noteq> CHR ''$''"
    by (auto simp: plain_literal_def letters_def digits_def)
  show ?case
  proof (cases "c = CHR ''*''")
    case True
    have "re_match_at ic (CHR ''.'' # CHR ''*'' # (replace_star cs @ ''$'')) t
        = glob_match ic (CHR ''*'' # cs) t"
      using step.prems(2) by (intro star_run step.IH plain)
    with True show ?thesis by simp
  next
    case False
    obtain q qs where q: "replace_star cs @ ''$'' = q # qs"
      by (cases "replace_star cs @ ''$''") auto
    show ?thesis
    proof (cases t)
      case Nil
      with False c q show ?thesis by simp
    next
      case (Cons d ds)
      with step.prems(2) have "newline \<notin> set ds" by simp
      from step.IH [OF plain this] q
      have "re_match_at ic (q # qs) ds = glob_match ic cs ds" by simp
      with False c q Cons show ?thesis by simp
    qed
  qed
qed

text \<open>A dot in the literal is not escaped either: in the pattern it matches any character.\<close>

lemma dot_matches_any_character:
  "OpFilter_match (anchored (LitStr ''a.b'')) (JStr ''axb'') = Inr True"
  by code_simp

text \<open>
  C6, as stated, fails for a \<^verbatim>\<open>Fuzzy\<close> leaf: its pattern is matched with
  \<^verbatim>\<open>re.IGNORECASE\<close>, so a letter of the literal matches the letter of the other case too.
\<close>

theorem fuzzy_letter_matches_other_case:
  "OpFuzzy_init (LitStr ''git'') = OpFuzzy ''^git$'' \<and>
   OpFuzzy_match ''^git$'' (JStr ''GIT'') = Inr True \<and>
   \<not> glob_match False ''git'' ''GIT''"
  by code_simp

text \<open>
  C6, amended. For a \<^verbatim>\<open>Filter\<close> or \<^verbatim>\<open>Fuzzy\<close> leaf whose literal is made of letters, digits,
  space, \<^verbatim>\<open>-\<close>, \<^verbatim>\<open>:\<close>, \<^verbatim>\<open>/\<close> and \<^verbatim>\<open>*\<close>, and a target string without newline, the target
  matches iff the whole of it, from start to end, matches the literal with each \<^verbatim>\<open>*\<close>
  standing for any sequence of characters and every other character for itself: exactly
  so for a \<^verbatim>\<open>Filter\<close> leaf, up to the case of letters for a \<^verbatim>\<open>Fuzzy\<close> leaf.
\<close>

theorem literal_is_fully_anchored:
  assumes "plain_literal (py_str v)" and "newline \<notin> set t"
  shows "OpFilter_init name v = OpFilter name (anchored v) \<and>
         OpFuzzy_init v = OpFuzzy (anchored v) \<and>
         OpFilter_match (anchored v) (JStr t) = Inr (glob_match False (py_str v) t) \<and>
         OpFuzzy_match (anchored v) (JStr t) = Inr (glob_match True (py_str v) t)"
  using anchored_body [OF assms, of False] anchored_body [OF assms, of True]
  by (simp add: OpFilter_init_def OpFuzzy_init_def anchored_def re_match_def)

theorem literal_is_fully_anchored_witness:
  "plain_literal (py_str (LitStr ''Git*'')) \<and> newline \<notin> set ''Github'' \<and>
   OpFilter_match (anchored (LitStr ''Git*'')) (JStr ''Github'') = Inr True \<and>
   OpFuzzy_match (anchored (LitStr ''Git*'')) (JStr ''Github'') = Inr True \<and>
   glob_match False ''Git*'' ''Github''"
proof -
  have a: "plain_literal (py_str (LitStr ''Git*''))"
    by (simp add: plain_literal_def letters_def digits_def)
  have b: "newline \<notin> set ''Github''"
    by (simp add: newline_def)
  have c: "glob_match False ''Git*'' ''Github''" "glob_match True ''Git*'' ''Github''"
    by (simp_all add: char_match_def)
  from literal_is_fully_anchored [OF a b] a b c show ?thesis by simp
qed

end
